theory Spec2Isabelle
  imports Main "HOL-Library.AList" "HOL-Library.List_Lexorder" "HOL-Library.Char_ord"
begin

section \<open>Python values, errors and the devices of the instrument\<close>

text \<open>
  Exceptions of the source are values: a function that may raise returns
  \<open>py_error + 'a\<close>, with \<open>Inl\<close> for the exception. \<open>DeviceError\<close> stands for
  whatever a device's own getter or setter raises.
\<close>

datatype py_error = KeyError | AttributeError | TypeError | DeviceError

definition bind :: "py_error + 'a \<Rightarrow> ('a \<Rightarrow> py_error + 'b) \<Rightarrow> py_error + 'b" where
  "bind m f = (case m of Inl e \<Rightarrow> Inl e | Inr x \<Rightarrow> f x)"

text \<open>
  The \<open>frames\<close> argument of \<open>setup_live\<close> and \<open>grab_frames\<close>: an integer, or
  \<open>float('inf')\<close> (the default).
\<close>

datatype frames = Finite int | Infinity

text \<open>The loop test \<open>i < frames\<close> of \<open>grab_frames\<close>; \<open>i\<close> counts up from 0.\<close>

fun lt_frames :: "nat \<Rightarrow> frames \<Rightarrow> bool" where
  "lt_frames i (Finite n) = (int i < n)"
| "lt_frames i Infinity = True"

text \<open>
  \<open>create_device_widgets\<close> is called once per device type (the collection name without
  its final s) and ends with \<open>setattr(self, f'{device_type}_lock', Lock())\<close>: one lock
  per device type.
\<close>

datatype device_type =
  Laser | Combiner | Camera | TilingStage | ScanningStage | FilterWheel | Daq | Writer | Transfer

datatype lock = Lock device_type

abbreviation camera_lock :: lock where "camera_lock \<equiv> Lock Camera"
abbreviation daq_lock :: lock where "daq_lock \<equiv> Lock Daq"
abbreviation scanning_stage_lock :: lock where "scanning_stage_lock \<equiv> Lock ScanningStage"
abbreviation tiling_stage_lock :: lock where "tiling_stage_lock \<equiv> Lock TilingStage"

text \<open>
  A frame is what \<open>grab_frame()\<close> returns: the camera's name and the number of frames
  the camera had delivered before it. A stage position is a scalar or a dict of axes.
\<close>

datatype image = Image string nat

datatype position = Scalar int | Axes "(string \<times> int) list"

text \<open>
  The threads of control: the presentation (Qt) thread, one thread per frame worker
  (numbered as the workers are created), and the stage poller's thread.
\<close>

datatype thread = MainThread | WorkerThread nat | PollerThread

datatype button_id = SnapshotButton string | LiveButton string

text \<open>The callables the source connects to signals.\<close>

datatype slot =
    SlotDisableButton button_id
  | SlotSetupLive string frames
  | SlotToggleLiveButton string
  | SlotWorkerQuit nat
  | SlotUpdateLayer
  | SlotDismantleLive string

text \<open>What a thread does to the locks, the hardware, the workers and the signals.\<close>

datatype action =
    Acquire lock
  | Release lock
  | CamPrepare string
  | CamStart string frames
  | CamAbort string
  | CamGrabFrame string
  | DaqGenerateWaveforms string string string string
  | DaqWriteAo string
  | DaqWriteDo string
  | DaqStartAll string
  | DaqStopAll string
  | StagePosition string
  | Sleep
  | CreateWorker nat string frames
  | ConnectYielded nat slot
  | ConnectFinished nat slot
  | StartWorker nat
  | Yield "image \<times> string"
  | YieldPosition "string \<times> position"

text \<open>
  The instrument: its dicts of devices, in dict order. \<open>daq_tasks\<close> is
  \<open>config['instrument']['devices']['daqs']\<close>, each daq's entry reduced to its
  \<open>'tasks'\<close> dict; a task is named by a string.
\<close>

record instrument =
  cameras :: "string list"
  daqs :: "string list"
  daq_tasks :: "string \<rightharpoonup> (string \<rightharpoonup> string)"
  scanning_stages :: "(string \<times> position) list"
  tiling_stages :: "(string \<times> position) list"

section \<open>The state of the view\<close>

datatype callback = SaveImage

record layer =
  l_data :: image
  mouse_drag_callbacks :: "callback list"

datatype wstatus = Created | Running | Done

text \<open>
  A worker object, as \<open>thread_worker\<close> makes it from the generator \<open>grab_frames\<close>: the
  generator's arguments and its local \<open>i\<close>, the slots connected to its \<open>yielded\<close> and
  \<open>finished\<close> signals, and the flag that \<open>quit\<close> sets.
\<close>

record worker =
  w_camera :: string
  w_frames :: frames
  w_i :: nat
  yielded :: "slot list"
  finished :: "slot list"
  status :: wstatus
  abort_requested :: bool

record button =
  enabled :: bool
  b_text :: string
  pressed :: "slot list"

text \<open>
  The fields of \<open>ExaSpimView\<close> the live core uses. Worker objects live in a store
  (\<open>workers\<close>, a worker's identity is its index) because the handle
  \<open>grab_frames_worker\<close> and the bound method \<open>grab_frames_worker.quit\<close> both refer to
  them. \<open>grabbed\<close> is the hardware's count of delivered frames per camera, \<open>timers\<close>
  the pending single-shot timers, \<open>trace\<close> the actions performed so far.
\<close>

record view =
  grab_frames_worker :: "nat option"
  workers :: "worker list"
  livestream_wavelength :: string
  layers :: "(string \<times> layer) list"
  buttons :: "button_id \<Rightarrow> button"
  timers :: "button_id list"
  grabbed :: "string \<Rightarrow> nat"
  trace :: "(thread \<times> action) list"

definition emit :: "thread \<Rightarrow> action list \<Rightarrow> view \<Rightarrow> view" where
  "emit t as v = v\<lparr>trace := trace v @ map (Pair t) as\<rparr>"

section \<open>The presentation sink: \<open>update_layer\<close>\<close>

text \<open>The f-string \<open>f"Video {camera_name} {self.livestream_wavelength}"\<close>.\<close>

definition layer_name :: "string \<Rightarrow> string \<Rightarrow> string" where
  "layer_name camera_name wavelength = ''Video '' @ camera_name @ '' '' @ wavelength"

text \<open>\<open>self.viewer.layers[name]\<close>: raises \<open>KeyError\<close> when no layer has the name.\<close>

definition layers_getitem :: "(string \<times> layer) list \<Rightarrow> string \<Rightarrow> py_error + layer" where
  "layers_getitem ls name = (case map_of ls name of None \<Rightarrow> Inl KeyError | Some l \<Rightarrow> Inr l)"

text \<open>The body of the \<open>try\<close>: look the layer up and assign its \<open>data\<close>.\<close>

definition update_layer_try :: "image \<times> string \<Rightarrow> view \<Rightarrow> py_error + view" where
  "update_layer_try args v =
     (case args of (img, camera_name) \<Rightarrow>
        let name = layer_name camera_name (livestream_wavelength v) in
        bind (layers_getitem (layers v) name) (\<lambda>layer.
          Inr (v\<lparr>layers := AList.update name (layer\<lparr>l_data := img\<rparr>) (layers v)\<rparr>)))"

text \<open>
  The \<open>except KeyError\<close> handler: \<open>viewer.add_image(image, name=...)\<close> appends a new
  layer, and \<open>save_image\<close> is appended to its mouse-drag callbacks.
\<close>

definition add_image :: "image \<Rightarrow> string \<Rightarrow> view \<Rightarrow> view" where
  "add_image img name v =
     v\<lparr>layers := layers v @ [(name, \<lparr>l_data = img, mouse_drag_callbacks = []\<rparr>)]\<rparr>"

definition append_callback :: "string \<Rightarrow> callback \<Rightarrow> view \<Rightarrow> view" where
  "append_callback name cb v =
     v\<lparr>layers := map (\<lambda>(k, l). if k = name
                                then (k, l\<lparr>mouse_drag_callbacks := mouse_drag_callbacks l @ [cb]\<rparr>)
                                else (k, l)) (layers v)\<rparr>"

definition update_layer :: "image \<times> string \<Rightarrow> view \<Rightarrow> py_error + view" where
  "update_layer args v =
     (case update_layer_try args v of
        Inr v' \<Rightarrow> Inr v'
      | Inl KeyError \<Rightarrow>
          (case args of (img, camera_name) \<Rightarrow>
             let name = layer_name camera_name (livestream_wavelength v) in
             Inr (append_callback name SaveImage (add_image img name v)))
      | Inl e \<Rightarrow> Inl e)"

section \<open>The live session controller: \<open>setup_live\<close> and \<open>dismantle_live\<close>\<close>

text \<open>\<open>self.instrument.cameras[camera_name]\<close>: \<open>KeyError\<close> for an unknown camera.\<close>

definition cameras_getitem :: "instrument \<Rightarrow> string \<Rightarrow> py_error + string" where
  "cameras_getitem inst camera_name =
     (if camera_name \<in> set (cameras inst) then Inr camera_name else Inl KeyError)"

text \<open>
  Calling the decorated generator \<open>grab_frames(camera_name, frames)\<close> runs none of its
  body: it makes a worker object, not yet started.
\<close>

definition grab_frames :: "string \<Rightarrow> frames \<Rightarrow> view \<Rightarrow> nat \<times> view" where
  "grab_frames camera_name frames v =
     (length (workers v),
      emit MainThread [CreateWorker (length (workers v)) camera_name frames]
        (v\<lparr>workers := workers v @
             [\<lparr>w_camera = camera_name, w_frames = frames, w_i = 0, yielded = [], finished = [],
               status = Created, abort_requested = False\<rparr>]\<rparr>))"

definition map_worker :: "nat \<Rightarrow> (worker \<Rightarrow> worker) \<Rightarrow> view \<Rightarrow> view" where
  "map_worker wid f v = v\<lparr>workers := (workers v)[wid := f (workers v ! wid)]\<rparr>"

definition connect_yielded :: "nat \<Rightarrow> slot \<Rightarrow> view \<Rightarrow> view" where
  "connect_yielded wid s v =
     emit MainThread [ConnectYielded wid s] (map_worker wid (\<lambda>w. w\<lparr>yielded := yielded w @ [s]\<rparr>) v)"

definition connect_finished :: "nat \<Rightarrow> slot \<Rightarrow> view \<Rightarrow> view" where
  "connect_finished wid s v =
     emit MainThread [ConnectFinished wid s] (map_worker wid (\<lambda>w. w\<lparr>finished := finished w @ [s]\<rparr>) v)"

definition start_worker :: "nat \<Rightarrow> view \<Rightarrow> view" where
  "start_worker wid v =
     emit MainThread [StartWorker wid] (map_worker wid (\<lambda>w. w\<lparr>status := Running\<rparr>) v)"

text \<open>
  One pass of the loop over \<open>self.instrument.daqs.items()\<close> in \<open>setup_live\<close>: two config
  lookups, then the five calls on the daq.
\<close>

definition setup_live_daq :: "instrument \<Rightarrow> string \<Rightarrow> view \<Rightarrow> py_error + view" where
  "setup_live_daq inst name v =
     (case daq_tasks inst name of
        None \<Rightarrow> Inl KeyError
      | Some tasks \<Rightarrow>
          (case tasks ''ao_task'' of
             None \<Rightarrow> Inl KeyError
           | Some ao_task \<Rightarrow>
               (case tasks ''do_task'' of
                  None \<Rightarrow> Inl KeyError
                | Some do_task \<Rightarrow>
                    Inr (emit MainThread
                      [DaqGenerateWaveforms name ao_task ''ao'' (livestream_wavelength v),
                       DaqGenerateWaveforms name do_task ''do'' (livestream_wavelength v),
                       DaqWriteAo name, DaqWriteDo name, DaqStartAll name] v))))"

fun setup_live_daqs :: "instrument \<Rightarrow> string list \<Rightarrow> view \<Rightarrow> py_error + view" where
  "setup_live_daqs inst [] v = Inr v"
| "setup_live_daqs inst (name # names) v =
     bind (setup_live_daq inst name v) (setup_live_daqs inst names)"

definition setup_live :: "instrument \<Rightarrow> string \<Rightarrow> frames \<Rightarrow> view \<Rightarrow> py_error + view" where
  "setup_live inst camera_name frames v =
     (case grab_frames camera_name frames v of (wid, v0) \<Rightarrow>
        let v1 = v0\<lparr>grab_frames_worker := Some wid\<rparr>;
            v2 = connect_yielded wid SlotUpdateLayer v1;
            v3 = connect_finished wid (SlotDismantleLive camera_name) v2;
            v4 = start_worker wid v3;
            v5 = emit MainThread [Acquire camera_lock] v4
        in bind (cameras_getitem inst camera_name) (\<lambda>cam.
             let v6 = emit MainThread [CamPrepare cam, CamStart cam frames, Release camera_lock] v5;
                 v7 = emit MainThread [Acquire daq_lock] v6
             in bind (setup_live_daqs inst (daqs inst) v7) (\<lambda>v8.
                  Inr (emit MainThread [Release daq_lock] v8))))"

definition dismantle_live :: "instrument \<Rightarrow> string \<Rightarrow> view \<Rightarrow> py_error + view" where
  "dismantle_live inst camera_name v =
     (let v1 = emit MainThread [Acquire camera_lock] v
      in bind (cameras_getitem inst camera_name) (\<lambda>cam.
           let v2 = emit MainThread [CamAbort cam, Release camera_lock] v1;
               v3 = emit MainThread [Acquire daq_lock] v2;
               v4 = emit MainThread (map DaqStopAll (daqs inst)) v3
           in Inr (emit MainThread [Release daq_lock] v4)))"

section \<open>The controls: \<open>disable_button\<close>, \<open>toggle_live_button\<close>, \<open>setup_camera_widgets\<close>\<close>

definition map_button :: "button_id \<Rightarrow> (button \<Rightarrow> button) \<Rightarrow> view \<Rightarrow> view" where
  "map_button b f v = v\<lparr>buttons := (buttons v)(b := f (buttons v b))\<rparr>"

text \<open>
  \<open>button.setEnabled(False)\<close>, then a single-shot timer that will call
  \<open>button.setDisabled(False)\<close>. How long the timer takes is not modelled: it fires when
  the environment says so (\<open>timer_fired\<close>).
\<close>

definition disable_button :: "button_id \<Rightarrow> view \<Rightarrow> view" where
  "disable_button b v = (map_button b (\<lambda>x. x\<lparr>enabled := False\<rparr>) v)\<lparr>timers := timers v @ [b]\<rparr>"

definition timer_fired :: "button_id \<Rightarrow> view \<Rightarrow> view" where
  "timer_fired b v =
     (if b \<in> set (timers v)
      then (map_button b (\<lambda>x. x\<lparr>enabled := True\<rparr>) v)\<lparr>timers := remove1 b (timers v)\<rparr>
      else v)"

text \<open>
  \<open>self.camera_widgets[camera_name]\<close> has the instrument's cameras as keys. The bound
  method \<open>self.grab_frames_worker.quit\<close> is taken from the handle as it is when
  \<open>toggle_live_button\<close> runs; on \<open>None\<close> the attribute access raises.
\<close>

definition toggle_live_button :: "instrument \<Rightarrow> string \<Rightarrow> view \<Rightarrow> py_error + view" where
  "toggle_live_button inst camera_name v =
     (if camera_name \<notin> set (cameras inst) then Inl KeyError
      else
        let live_button = LiveButton camera_name;
            v1 = map_button live_button (\<lambda>x. x\<lparr>pressed := []\<rparr>) v;
            rest = [SlotDisableButton live_button, SlotToggleLiveButton camera_name]
        in if b_text (buttons v1 live_button) = ''Live''
           then (case grab_frames_worker v1 of
                   None \<Rightarrow> Inl AttributeError
                 | Some wid \<Rightarrow>
                     Inr (map_button live_button
                            (\<lambda>x. x\<lparr>b_text := ''Stop'', pressed := [SlotWorkerQuit wid] @ rest\<rparr>) v1))
           else Inr (map_button live_button
                       (\<lambda>x. x\<lparr>b_text := ''Live'',
                              pressed := [SlotSetupLive camera_name Infinity] @ rest\<rparr>) v1))"

text \<open>\<open>worker.quit()\<close> asks the worker to stop; the worker sees it before its next frame.\<close>

definition worker_quit :: "nat \<Rightarrow> view \<Rightarrow> view" where
  "worker_quit wid v = map_worker wid (\<lambda>w. w\<lparr>abort_requested := True\<rparr>) v"

text \<open>
  Calling a connected slot. Only the \<open>yielded\<close> signal carries an argument (the frame).
\<close>

definition run_slot ::
  "instrument \<Rightarrow> (image \<times> string) option \<Rightarrow> slot \<Rightarrow> view \<Rightarrow> py_error + view" where
  "run_slot inst arg s v =
     (case s of
        SlotDisableButton b \<Rightarrow> Inr (disable_button b v)
      | SlotSetupLive camera_name frames \<Rightarrow> setup_live inst camera_name frames v
      | SlotToggleLiveButton camera_name \<Rightarrow> toggle_live_button inst camera_name v
      | SlotWorkerQuit wid \<Rightarrow> Inr (worker_quit wid v)
      | SlotUpdateLayer \<Rightarrow> (case arg of None \<Rightarrow> Inl TypeError | Some args \<Rightarrow> update_layer args v)
      | SlotDismantleLive camera_name \<Rightarrow> dismantle_live inst camera_name v)"

text \<open>
  A signal calls its slots in the order they were connected; an exception that leaves a
  slot is fatal.
\<close>

fun run_slots ::
  "instrument \<Rightarrow> (image \<times> string) option \<Rightarrow> slot list \<Rightarrow> view \<Rightarrow> py_error + view" where
  "run_slots inst arg [] v = Inr v"
| "run_slots inst arg (s # ss) v = bind (run_slot inst arg s v) (run_slots inst arg ss)"

text \<open>A disabled button emits no \<open>pressed\<close> signal.\<close>

definition press :: "instrument \<Rightarrow> button_id \<Rightarrow> view \<Rightarrow> py_error + view" where
  "press inst b v =
     (if enabled (buttons v b) then run_slots inst None (pressed (buttons v b)) v else Inr v)"

text \<open>
  \<open>setup_camera_widgets\<close>: what is connected to each camera's two buttons, in the order
  of the \<open>connect\<close> calls. The buttons start enabled, the live button reading \<open>Live\<close>.
\<close>

definition setup_camera_widgets :: "button_id \<Rightarrow> button" where
  "setup_camera_widgets b =
     (case b of
        SnapshotButton camera_name \<Rightarrow>
          \<lparr>enabled = True, b_text = ''Snapshot'',
           pressed = [SlotDisableButton (SnapshotButton camera_name),
                      SlotSetupLive camera_name (Finite 1)]\<rparr>
      | LiveButton camera_name \<Rightarrow>
          \<lparr>enabled = True, b_text = ''Live'',
           pressed = [SlotDisableButton (LiveButton camera_name),
                      SlotSetupLive camera_name Infinity,
                      SlotToggleLiveButton camera_name]\<rparr>)"

text \<open>The view as \<open>__init__\<close> leaves it: no worker yet, no layer, nothing done.\<close>

definition init_view :: view where
  "init_view =
     \<lparr>grab_frames_worker = None, workers = [], livestream_wavelength = ''488'', layers = [],
      buttons = setup_camera_widgets, timers = [], grabbed = (\<lambda>_. 0), trace = []\<rparr>"

section \<open>The frame acquisition worker: the generator \<open>grab_frames\<close>\<close>

text \<open>
  Resuming the generator: the loop test, and when it holds the \<open>with\<close> block up to the
  \<open>yield\<close>. The result is the yielded pair, or \<open>None\<close> when the generator returns.
  The increment \<open>i += 1\<close> after the \<open>yield\<close> is done by \<open>worker_step\<close>, once the frame
  has been handed over.
\<close>

definition grab_frames_next ::
  "instrument \<Rightarrow> nat \<Rightarrow> worker \<Rightarrow> view \<Rightarrow> py_error + ((image \<times> string) option \<times> view)" where
  "grab_frames_next inst wid w v =
     (if lt_frames (w_i w) (w_frames w)
      then
        let camera_name = w_camera w;
            v1 = emit (WorkerThread wid) [Acquire camera_lock] v
        in bind (cameras_getitem inst camera_name) (\<lambda>cam.
             let frame = (Image cam (grabbed v1 cam), camera_name);
                 v2 = emit (WorkerThread wid) [CamGrabFrame cam, Release camera_lock]
                        (v1\<lparr>grabbed := (grabbed v1)(cam := Suc (grabbed v1 cam))\<rparr>)
             in Inr (Some frame, v2))
      else Inr (None, v))"

text \<open>The worker is over: its \<open>finished\<close> signal is emitted, once.\<close>

definition worker_finish :: "instrument \<Rightarrow> nat \<Rightarrow> view \<Rightarrow> py_error + view" where
  "worker_finish inst wid v =
     run_slots inst None (finished (workers v ! wid)) (map_worker wid (\<lambda>w. w\<lparr>status := Done\<rparr>) v)"

text \<open>
  One turn of the worker's thread: stop if \<open>quit\<close> was called, else resume the generator;
  a yielded frame goes to the \<open>yielded\<close> signal, the end of the generator to \<open>finished\<close>.
  A turn is atomic here: the camera lock taken in it is released in it.
\<close>

definition worker_step :: "instrument \<Rightarrow> nat \<Rightarrow> view \<Rightarrow> py_error + view" where
  "worker_step inst wid v =
     (if wid < length (workers v) \<and> status (workers v ! wid) = Running
      then
        let w = workers v ! wid in
        if abort_requested w then worker_finish inst wid v
        else bind (grab_frames_next inst wid w v) (\<lambda>(out, v1).
               case out of
                 None \<Rightarrow> worker_finish inst wid v1
               | Some frame \<Rightarrow>
                   bind (run_slots inst (Some frame) (yielded w)
                          (emit (WorkerThread wid) [Yield frame] v1)) (\<lambda>v2.
                     Inr (map_worker wid (\<lambda>w. w\<lparr>w_i := w_i w + 1\<rparr>) v2)))
      else Inr v)"

text \<open>
  The worker's thread, for at most \<open>fuel\<close> turns. With \<open>frames = Infinity\<close> and no
  \<open>quit\<close> the loop never ends: then the fuel runs out and the worker is still \<open>Running\<close>
  in the result.
\<close>

fun worker_run :: "instrument \<Rightarrow> nat \<Rightarrow> nat \<Rightarrow> view \<Rightarrow> py_error + view" where
  "worker_run inst 0 wid v = Inr v"
| "worker_run inst (Suc fuel) wid v =
     (if wid < length (workers v) \<and> status (workers v ! wid) = Running
      then bind (worker_step inst wid v) (worker_run inst fuel wid)
      else Inr v)"

section \<open>The stage position poller: the generator \<open>grab_stage_positions\<close>\<close>

text \<open>
  Python's \<open>a and b\<close> is \<open>b\<close> when \<open>a\<close> is truthy and \<open>a\<close> otherwise. A
  \<open>threading.Lock\<close> defines neither \<open>__bool__\<close> nor \<open>__len__\<close>: it is always truthy.
\<close>

definition lock_truthy :: "lock \<Rightarrow> bool" where
  "lock_truthy l = True"

definition py_and :: "lock \<Rightarrow> lock \<Rightarrow> lock" where
  "py_and a b = (if lock_truthy a then b else a)"

text \<open>\<open>{**a, **b}\<close>: the keys of \<open>a\<close> in order, then the new keys of \<open>b\<close>; \<open>b\<close>'s values win.\<close>

definition dict_merge :: "(string \<times> 'v) list \<Rightarrow> (string \<times> 'v) list \<Rightarrow> (string \<times> 'v) list" where
  "dict_merge a b = foldl (\<lambda>m (k, x). AList.update k x m) a b"

text \<open>
  The body of the \<open>for\<close> loop for one stage: the \<open>with\<close> statement takes the one lock
  its expression evaluates to, reads the position, releases, then yields.
\<close>

definition poll_stage :: "string \<times> position \<Rightarrow> action list" where
  "poll_stage item =
     (case item of (name, position) \<Rightarrow>
        let l = py_and scanning_stage_lock tiling_stage_lock
        in [Acquire l, StagePosition name, Release l, YieldPosition (name, position)])"

text \<open>One pass of \<open>while True\<close>: the sleep, then every stage of both dicts.\<close>

definition poll_cycle :: "instrument \<Rightarrow> action list" where
  "poll_cycle inst =
     Sleep # concat (map poll_stage (dict_merge (scanning_stages inst) (tiling_stages inst)))"

text \<open>
  The poller never returns; \<open>fuel\<close> is the number of passes of \<open>while True\<close> observed.
\<close>

fun grab_stage_positions :: "instrument \<Rightarrow> nat \<Rightarrow> view \<Rightarrow> view" where
  "grab_stage_positions inst 0 v = v"
| "grab_stage_positions inst (Suc fuel) v =
     grab_stage_positions inst fuel (emit PollerThread (poll_cycle inst) v)"

section \<open>The user interface as a state machine\<close>

text \<open>
  What can happen to the running view: the user presses a button, a cool-down timer
  fires, a worker's thread gets a turn.
\<close>

datatype ui_event = Press button_id | TimerFired button_id | WorkerTurn nat

definition ui_step :: "instrument \<Rightarrow> ui_event \<Rightarrow> view \<Rightarrow> py_error + view" where
  "ui_step inst ev v =
     (case ev of
        Press b \<Rightarrow> press inst b v
      | TimerFired b \<Rightarrow> Inr (timer_fired b v)
      | WorkerTurn wid \<Rightarrow> worker_step inst wid v)"

fun run_events :: "instrument \<Rightarrow> ui_event list \<Rightarrow> view \<Rightarrow> py_error + view" where
  "run_events inst [] v = Inr v"
| "run_events inst (ev # evs) v = bind (ui_step inst ev v) (run_events inst evs)"

text \<open>The workers grabbing from a camera: started, and not yet over.\<close>

definition active_workers :: "string \<Rightarrow> view \<Rightarrow> nat list" where
  "active_workers camera_name v =
     filter (\<lambda>wid. w_camera (workers v ! wid) = camera_name \<and> status (workers v ! wid) = Running)
       [0..<length (workers v)]"

section \<open>The device property bridge: \<open>scan_for_properties\<close>, \<open>device_property_changed\<close>\<close>

datatype pyval = PyNone | PyInt int | PyStr string

text \<open>
  An attribute of a device's class: a \<open>property\<close> object with its \<open>fget\<close> and \<open>fset\<close>
  (either may be \<open>None\<close>), or anything else. Getters read the hardware state \<open>'hw\<close>
  without changing it; a setter may store any value it likes (clamp, round) and change
  what other getters report.
\<close>

datatype 'hw class_attr =
    Property "('hw \<Rightarrow> py_error + pyval) option" "(pyval \<Rightarrow> 'hw \<Rightarrow> py_error + 'hw) option"
  | ClassValue pyval

record 'hw device =
  dev_class :: "(string \<times> 'hw class_attr) list"
  dev_dict :: "(string \<times> pyval) list"
  dev_hw :: 'hw

text \<open>\<open>dir(device)\<close>: the names of the instance and of its class, sorted.\<close>

definition dir_names :: "'hw device \<Rightarrow> string list" where
  "dir_names dev = sort (remdups (map fst (dev_dict dev) @ map fst (dev_class dev)))"

text \<open>
  \<open>getattr(device, name)\<close>: a property of the class comes first (a data descriptor), then
  the instance's own attribute, then a plain class attribute.
\<close>

definition py_getattr :: "'hw device \<Rightarrow> string \<Rightarrow> py_error + pyval" where
  "py_getattr dev name =
     (case map_of (dev_class dev) name of
        Some (Property fget fset) \<Rightarrow>
          (case fget of None \<Rightarrow> Inl AttributeError | Some g \<Rightarrow> g (dev_hw dev))
      | other \<Rightarrow>
          (case map_of (dev_dict dev) name of
             Some x \<Rightarrow> Inr x
           | None \<Rightarrow> (case other of Some (ClassValue x) \<Rightarrow> Inr x | _ \<Rightarrow> Inl AttributeError)))"

text \<open>\<open>getattr(device, name, None)\<close>: the default replaces an \<open>AttributeError\<close> only.\<close>

definition py_getattr_default :: "'hw device \<Rightarrow> string \<Rightarrow> py_error + pyval" where
  "py_getattr_default dev name =
     (case py_getattr dev name of
        Inl AttributeError \<Rightarrow> Inr PyNone
      | r \<Rightarrow> r)"

text \<open>\<open>setattr(device, name, value)\<close>: a property without setter raises.\<close>

definition py_setattr :: "'hw device \<Rightarrow> string \<Rightarrow> pyval \<Rightarrow> py_error + 'hw device" where
  "py_setattr dev name x =
     (case map_of (dev_class dev) name of
        Some (Property fget fset) \<Rightarrow>
          (case fset of
             None \<Rightarrow> Inl AttributeError
           | Some f \<Rightarrow> bind (f x (dev_hw dev)) (\<lambda>hw. Inr (dev\<lparr>dev_hw := hw\<rparr>)))
      | _ \<Rightarrow> Inr (dev\<lparr>dev_dict := AList.update name x (dev_dict dev)\<rparr>))"

text \<open>\<open>isinstance(getattr(type(device), attr_name, None), property)\<close>.\<close>

definition is_property :: "'hw device \<Rightarrow> string \<Rightarrow> bool" where
  "is_property dev attr_name =
     (case map_of (dev_class dev) attr_name of Some (Property fget fset) \<Rightarrow> True | _ \<Rightarrow> False)"

text \<open>The test the source has in a comment: \<open>attr.fset is not None\<close>.\<close>

definition has_setter :: "'hw device \<Rightarrow> string \<Rightarrow> bool" where
  "has_setter dev attr_name =
     (case map_of (dev_class dev) attr_name of
        Some (Property fget (Some f)) \<Rightarrow> True
      | _ \<Rightarrow> False)"

fun scan_loop ::
  "'hw device \<Rightarrow> string list \<Rightarrow> (string \<times> pyval) list \<Rightarrow> py_error + (string \<times> pyval) list" where
  "scan_loop dev [] prop_dict = Inr prop_dict"
| "scan_loop dev (attr_name # rest) prop_dict =
     (if is_property dev attr_name
      then bind (py_getattr_default dev attr_name) (\<lambda>x.
             scan_loop dev rest (AList.update attr_name x prop_dict))
      else scan_loop dev rest prop_dict)"

definition scan_for_properties :: "'hw device \<Rightarrow> py_error + (string \<times> pyval) list" where
  "scan_for_properties dev = scan_loop dev (dir_names dev) []"

text \<open>
  The widget of a device, as the bridge uses it: attributes that hold the displayed values,
  and the keys of \<open>property_widgets\<close>.
\<close>

record widget =
  w_attrs :: "(string \<times> pyval) list"
  property_widgets :: "string list"

definition widget_getattr :: "widget \<Rightarrow> string \<Rightarrow> py_error + pyval" where
  "widget_getattr w name =
     (case map_of (w_attrs w) name of None \<Rightarrow> Inl AttributeError | Some x \<Rightarrow> Inr x)"

definition widget_setattr :: "widget \<Rightarrow> string \<Rightarrow> pyval \<Rightarrow> widget" where
  "widget_setattr w name x = w\<lparr>w_attrs := AList.update name x (w_attrs w)\<rparr>"

text \<open>\<open>name.split('.')[0]\<close>: the part of \<open>name\<close> before its first dot.\<close>

definition split_first :: "string \<Rightarrow> string" where
  "split_first name = takeWhile (\<lambda>c. c \<noteq> CHR ''.'') name"

text \<open>
  The loop that re-reads every tracked attribute and writes it to the widget. When a read
  raises, the loop stops there: the result is the exception and the widget as the loop has
  left it, the attributes before the failing one refreshed, the others as they were.
\<close>

fun refresh_widget :: "'hw device \<Rightarrow> string list \<Rightarrow> widget \<Rightarrow> py_error option \<times> widget" where
  "refresh_widget dev [] w = (None, w)"
| "refresh_widget dev (k # ks) w =
     (case py_getattr dev k of
        Inl e \<Rightarrow> (Some e, w)
      | Inr device_value \<Rightarrow> refresh_widget dev ks (widget_setattr w k device_value))"

text \<open>
  The handler of a widget edit. The two \<open>print\<close> calls evaluate \<open>getattr\<close> on the widget
  and on the device, which may raise; what they print is not modelled. The keys of
  \<open>property_widgets\<close> are fixed before the loop starts. The result is the exception that
  left the handler (\<open>None\<close> when it returned), with the device, the widget and the view as
  they are then: what was written before an exception stays written, and the \<open>with\<close>
  statement releases the lock on either way out. A setter that raises is taken to have
  left the hardware as it was.
\<close>

definition device_property_changed ::
  "string \<Rightarrow> 'hw device \<Rightarrow> widget \<Rightarrow> device_type \<Rightarrow> view \<Rightarrow>
     py_error option \<times> 'hw device \<times> widget \<times> view" where
  "device_property_changed name dev w dt v =
     (let v1 = emit MainThread [Acquire (Lock dt)] v;
          attr = split_first name;
          released = emit MainThread [Release (Lock dt)] v1
      in case widget_getattr w attr of
           Inl e \<Rightarrow> (Some e, dev, w, released)
         | Inr printed \<Rightarrow>
        (case widget_getattr w attr of
           Inl e \<Rightarrow> (Some e, dev, w, released)
         | Inr x \<Rightarrow>
        (case py_setattr dev attr x of
           Inl e \<Rightarrow> (Some e, dev, w, released)
         | Inr dev' \<Rightarrow>
        (case py_getattr dev' attr of
           Inl e \<Rightarrow> (Some e, dev', w, released)
         | Inr printed' \<Rightarrow>
        (case refresh_widget dev' (property_widgets w) w of
           (err, w') \<Rightarrow> (err, dev', w', released))))))"

section \<open>Notions the properties are stated with\<close>

text \<open>What one thread did, in order.\<close>

definition thread_actions :: "thread \<Rightarrow> (thread \<times> action) list \<Rightarrow> action list" where
  "thread_actions t tr = map snd (filter (\<lambda>e. fst e = t) tr)"

text \<open>The frames emitted in a trace, in order.\<close>

definition yields :: "(thread \<times> action) list \<Rightarrow> (image \<times> string) list" where
  "yields tr = concat (map (\<lambda>e. case snd e of Yield f \<Rightarrow> [f] | _ \<Rightarrow> []) tr)"

text \<open>The locks a thread holds after a trace.\<close>

definition step_held :: "thread \<Rightarrow> lock set \<Rightarrow> thread \<times> action \<Rightarrow> lock set" where
  "step_held t H e =
     (case e of
        (u, Acquire l) \<Rightarrow> if u = t then insert l H else H
      | (u, Release l) \<Rightarrow> if u = t then H - {l} else H
      | _ \<Rightarrow> H)"

definition held :: "thread \<Rightarrow> (thread \<times> action) list \<Rightarrow> lock set" where
  "held t es = foldl (step_held t) {} es"

text \<open>
  No prefix of \<open>es\<close> leaves the thread with both the camera lock and the daq lock,
  when it starts with the locks \<open>H\<close>.
\<close>

definition never_both :: "thread \<Rightarrow> lock set \<Rightarrow> (thread \<times> action) list \<Rightarrow> bool" where
  "never_both t H es \<longleftrightarrow>
     (\<forall>n. \<not> (camera_lock \<in> foldl (step_held t) H (take n es) \<and>
               daq_lock \<in> foldl (step_held t) H (take n es)))"

text \<open>
  The lock discipline of one thread's actions, starting with the locks \<open>H\<close> held: a frame
  is grabbed only with the camera lock held, and emitted only with no lock held.
\<close>

fun lock_discipline :: "lock set \<Rightarrow> action list \<Rightarrow> bool" where
  "lock_discipline H [] = True"
| "lock_discipline H (Acquire l # as) = lock_discipline (insert l H) as"
| "lock_discipline H (Release l # as) = lock_discipline (H - {l}) as"
| "lock_discipline H (CamGrabFrame c # as) = (camera_lock \<in> H \<and> lock_discipline H as)"
| "lock_discipline H (Yield f # as) = (H = {} \<and> lock_discipline H as)"
| "lock_discipline H (a # as) = lock_discipline H as"

text \<open>
  A step that only the main thread takes part in: no other thread's actions are added, the
  hardware delivers no frame, and no worker changes its camera or frame count.
\<close>

definition main_only :: "view \<Rightarrow> view \<Rightarrow> bool" where
  "main_only v v' \<longleftrightarrow>
     grabbed v' = grabbed v \<and>
     (\<forall>t. t \<noteq> MainThread \<longrightarrow> thread_actions t (trace v') = thread_actions t (trace v)) \<and>
     length (workers v) \<le> length (workers v') \<and>
     (\<forall>i < length (workers v).
        w_camera (workers v' ! i) = w_camera (workers v ! i) \<and>
        w_frames (workers v' ! i) = w_frames (workers v ! i))"

text \<open>One pass of the worker's loop that delivers the camera's frame number \<open>n\<close>.\<close>

definition grab_iteration :: "string \<Rightarrow> nat \<Rightarrow> action list" where
  "grab_iteration cam n =
     [Acquire camera_lock, CamGrabFrame cam, Release camera_lock, Yield (Image cam n, cam)]"

text \<open>The five calls of \<open>setup_live\<close> on the daq \<open>d\<close>, given the tasks of its config.\<close>

definition daq_start_actions ::
  "(string \<Rightarrow> string) \<Rightarrow> (string \<Rightarrow> string) \<Rightarrow> string \<Rightarrow> string \<Rightarrow> action list" where
  "daq_start_actions ao_task do_task wl d =
     [DaqGenerateWaveforms d (ao_task d) ''ao'' wl, DaqGenerateWaveforms d (do_task d) ''do'' wl,
      DaqWriteAo d, DaqWriteDo d, DaqStartAll d]"

section \<open>A small instrument\<close>

definition example_instrument :: instrument where
  "example_instrument =
     \<lparr>cameras = [''cam0''], daqs = [''daq0''],
      daq_tasks = [''daq0'' \<mapsto> [''ao_task'' \<mapsto> ''ao0'', ''do_task'' \<mapsto> ''do0'']],
      scanning_stages = [(''z'', Scalar 5)],
      tiling_stages = [(''xy'', Axes [(''x'', 1), (''y'', 2)])]\<rparr>"

text \<open>The view after a snapshot request on \<open>cam0\<close>, and after its worker has run.\<close>

definition snapshot_started :: view where
  "snapshot_started =
     (case setup_live example_instrument ''cam0'' (Finite 1) init_view of
        Inr v \<Rightarrow> v | Inl e \<Rightarrow> init_view)"

definition snapshot_finished :: view where
  "snapshot_finished =
     (case worker_run example_instrument 2 0 snapshot_started of
        Inr v \<Rightarrow> v | Inl e \<Rightarrow> init_view)"

text \<open>The view after a request for zero frames on \<open>cam0\<close>.\<close>

definition zero_started :: view where
  "zero_started =
     (case setup_live example_instrument ''cam0'' (Finite 0) init_view of
        Inr v \<Rightarrow> v | Inl e \<Rightarrow> init_view)"

text \<open>
  A camera with an exposure time that it keeps within 1 to 100 and a frame rate that
  follows from it; the frame rate has no setter. The hardware state is the exposure time.
\<close>

definition set_exposure :: "pyval \<Rightarrow> int \<Rightarrow> py_error + int" where
  "set_exposure x hw = (case x of PyInt n \<Rightarrow> Inr (max 1 (min 100 n)) | _ \<Rightarrow> Inl TypeError)"

definition example_camera :: "int device" where
  "example_camera =
     \<lparr>dev_class =
        [(''exposure_time'', Property (Some (\<lambda>hw. Inr (PyInt hw))) (Some set_exposure)),
         (''frame_rate'', Property (Some (\<lambda>hw. Inr (PyInt (1000 div hw)))) None),
         (''grab_frame'', ClassValue PyNone)],
      dev_dict = [(''id'', PyStr ''cam0'')],
      dev_hw = 20\<rparr>"

text \<open>Its widget, after the user has typed 500 into the exposure field.\<close>

definition example_widget :: widget where
  "example_widget =
     \<lparr>w_attrs = [(''exposure_time'', PyInt 500), (''frame_rate'', PyInt 50)],
      property_widgets = [''exposure_time'', ''frame_rate'']\<rparr>"


text \<open>
  A laser with a power set-point that can be written (kept within 0 to 100) but not read,
  and the power it reports. The hardware state is the power.
\<close>

definition set_power :: "pyval \<Rightarrow> int \<Rightarrow> py_error + int" where
  "set_power x hw = (case x of PyInt n \<Rightarrow> Inr (max 0 (min 100 n)) | _ \<Rightarrow> Inl TypeError)"

definition example_laser :: "int device" where
  "example_laser =
     \<lparr>dev_class =
        [(''power_setpoint'', Property None (Some set_power)),
         (''power'', Property (Some (\<lambda>hw. Inr (PyInt hw))) None)],
      dev_dict = [],
      dev_hw = 10\<rparr>"

text \<open>Its widget, after the user has typed 80 into the set-point field.\<close>

definition example_laser_widget :: widget where
  "example_laser_widget =
     \<lparr>w_attrs = [(''power'', PyInt 10), (''power_setpoint'', PyInt 80)],
      property_widgets = [''power'', ''power_setpoint'']\<rparr>"

text \<open>
  What \<open>setup_camera_widgets\<close> and \<open>toggle_live_button\<close> connect to a camera's live
  button: the three connections of the start, or after a toggle the stop or the restart.
\<close>

definition live_slots :: "string \<Rightarrow> slot list \<Rightarrow> bool" where
  "live_slots c ss \<longleftrightarrow>
     ss = [SlotDisableButton (LiveButton c), SlotSetupLive c Infinity, SlotToggleLiveButton c] \<or>
     ss = [SlotSetupLive c Infinity, SlotDisableButton (LiveButton c), SlotToggleLiveButton c] \<or>
     (\<exists>wid. ss = [SlotWorkerQuit wid, SlotDisableButton (LiveButton c), SlotToggleLiveButton c])"

text \<open>Every button has the connections the source gives it.\<close>

definition wired :: "view \<Rightarrow> bool" where
  "wired v \<longleftrightarrow>
     (\<forall>c. pressed (buttons v (SnapshotButton c)) =
             [SlotDisableButton (SnapshotButton c), SlotSetupLive c (Finite 1)] \<and>
          live_slots c (pressed (buttons v (LiveButton c))))"

text \<open>
  The view after the live button of \<open>cam0\<close> was pressed, and after the snapshot button
  of the same camera was pressed next.
\<close>

definition live_started :: view where
  "live_started =
     (case run_events example_instrument [Press (LiveButton ''cam0'')] init_view of
        Inr v \<Rightarrow> v | Inl e \<Rightarrow> init_view)"

definition both_started :: view where
  "both_started =
     (case press example_instrument (SnapshotButton ''cam0'') live_started of
        Inr v \<Rightarrow> v | Inl e \<Rightarrow> init_view)"

text \<open>
  The view after that, when the snapshot button was pressed twice more with a turn of the
  snapshot worker in between, and no timer has fired.
\<close>

definition snapshot_pressed_again :: view where
  "snapshot_pressed_again =
     (case run_events example_instrument
             [Press (SnapshotButton ''cam0''), WorkerTurn 1, Press (SnapshotButton ''cam0'')]
             both_started of
        Inr v \<Rightarrow> v | Inl e \<Rightarrow> init_view)"

section \<open>Steps of the main thread leave the other threads alone\<close>

lemma thread_actions_append [simp]:
  "thread_actions t (xs @ ys) = thread_actions t xs @ thread_actions t ys"
  by (simp add: thread_actions_def)

lemma thread_actions_Nil [simp]: "thread_actions t [] = []"
  by (simp add: thread_actions_def)

lemma thread_actions_Cons [simp]:
  "thread_actions t ((u, a) # es) = (if u = t then a # thread_actions t es else thread_actions t es)"
  by (simp add: thread_actions_def)

lemma thread_actions_other_comp [simp]:
  "t \<noteq> u \<Longrightarrow> thread_actions t (map (Pair u \<circ> f) xs) = []"
  by (induction xs) simp_all

lemma thread_actions_same [simp]: "thread_actions t (map (Pair t) as) = as"
  by (induction as) simp_all

lemma thread_actions_other [simp]: "t \<noteq> u \<Longrightarrow> thread_actions t (map (Pair u) as) = []"
  by (induction as) simp_all

lemma main_only_refl: "main_only v v"
  by (simp add: main_only_def)

lemma main_only_trans: "main_only a b \<Longrightarrow> main_only b c \<Longrightarrow> main_only a c"
  unfolding main_only_def
  apply (elim conjE)
  apply (intro conjI)
     apply simp
    apply simp
   apply simp
  apply (intro allI impI)
  apply (subgoal_tac "i < length (workers b)")
   apply simp
  apply simp
  done

lemma main_only_emit: "main_only v (emit MainThread as v)"
  by (auto simp: main_only_def emit_def)

lemma main_only_map_worker:
  assumes "\<And>w. w_camera (f w) = w_camera w \<and> w_frames (f w) = w_frames w"
  shows "main_only v (map_worker wid f v)"
proof -
  have "w_camera (f w) = w_camera w" "w_frames (f w) = w_frames w" for w
    using assms by simp_all
  then show ?thesis
    by (cases "wid < length (workers v)")
       (simp_all add: main_only_def map_worker_def nth_list_update)
qed

lemma main_only_map_button: "main_only v (map_button b f v)"
  by (simp add: main_only_def map_button_def)

lemma main_only_disable_button: "main_only v (disable_button b v)"
  by (simp add: main_only_def disable_button_def map_button_def)

lemma main_only_worker_quit: "main_only v (worker_quit wid v)"
  unfolding worker_quit_def by (rule main_only_map_worker) simp

lemma main_only_update_layer: "update_layer args v = Inr v' \<Longrightarrow> main_only v v'"
  by (auto simp: update_layer_def update_layer_try_def bind_def main_only_def add_image_def
      append_callback_def Let_def split: sum.splits py_error.splits prod.splits)

lemma main_only_toggle: "toggle_live_button inst c v = Inr v' \<Longrightarrow> main_only v v'"
  by (auto simp: toggle_live_button_def Let_def main_only_def map_button_def
      split: if_splits option.splits)

lemma main_only_dismantle: "dismantle_live inst c v = Inr v' \<Longrightarrow> main_only v v'"
  by (auto simp: dismantle_live_def Let_def bind_def main_only_def emit_def cameras_getitem_def
      split: if_splits sum.splits)

lemma main_only_setup_live_daq: "setup_live_daq inst d v = Inr v' \<Longrightarrow> main_only v v'"
  by (auto simp: setup_live_daq_def main_only_emit split: option.splits)

lemma main_only_setup_live_daqs: "setup_live_daqs inst ds v = Inr v' \<Longrightarrow> main_only v v'"
proof (induction ds arbitrary: v)
  case Nil
  then show ?case by (simp add: main_only_refl)
next
  case (Cons d ds)
  then obtain v1 where 1: "setup_live_daq inst d v = Inr v1" and 2: "setup_live_daqs inst ds v1 = Inr v'"
    by (auto simp: bind_def split: sum.splits)
  from main_only_setup_live_daq[OF 1] Cons.IH[OF 2] show ?case by (rule main_only_trans)
qed

lemma main_only_grab_frames: "main_only v (snd (grab_frames c f v))"
  by (simp add: grab_frames_def main_only_def emit_def nth_append)

lemma main_only_connect_yielded: "main_only v (connect_yielded wid s v)"
  unfolding connect_yielded_def
  by (rule main_only_trans[OF main_only_map_worker main_only_emit]) simp

lemma main_only_connect_finished: "main_only v (connect_finished wid s v)"
  unfolding connect_finished_def
  by (rule main_only_trans[OF main_only_map_worker main_only_emit]) simp

lemma main_only_start_worker: "main_only v (start_worker wid v)"
  unfolding start_worker_def
  by (rule main_only_trans[OF main_only_map_worker main_only_emit]) simp

lemma main_only_setup_live: "setup_live inst c f v = Inr v' \<Longrightarrow> main_only v v'"
proof -
  assume a: "setup_live inst c f v = Inr v'"
  obtain wid v0 where g: "grab_frames c f v = (wid, v0)" by (cases "grab_frames c f v")
  have m0: "main_only v v0" using main_only_grab_frames[of v c f] g by simp
  define v5 where "v5 = emit MainThread [Acquire camera_lock]
     (start_worker wid (connect_finished wid (SlotDismantleLive c)
        (connect_yielded wid SlotUpdateLayer (v0\<lparr>grab_frames_worker := Some wid\<rparr>))))"
  have m1: "main_only v0 (v0\<lparr>grab_frames_worker := Some wid\<rparr>)" by (simp add: main_only_def)
  have m5: "main_only v0 v5"
    unfolding v5_def
    by (rule main_only_trans[OF m1 main_only_trans[OF main_only_connect_yielded
          main_only_trans[OF main_only_connect_finished
            main_only_trans[OF main_only_start_worker main_only_emit]]]])
  from a g obtain v8 where
    d: "setup_live_daqs inst (daqs inst)
          (emit MainThread [Acquire daq_lock]
             (emit MainThread [CamPrepare c, CamStart c f, Release camera_lock] v5)) = Inr v8"
    and e: "v' = emit MainThread [Release daq_lock] v8"
    by (auto simp: setup_live_def Let_def bind_def v5_def cameras_getitem_def
        split: sum.splits if_splits)
  have "main_only v5 v8"
    by (rule main_only_trans[OF main_only_emit main_only_trans[OF main_only_emit main_only_setup_live_daqs[OF d]]])
  then have "main_only v5 v'" unfolding e by (rule main_only_trans[OF _ main_only_emit])
  with m0 m5 show ?thesis by (blast intro: main_only_trans)
qed

lemma main_only_run_slot: "run_slot inst arg s v = Inr v' \<Longrightarrow> main_only v v'"
  by (cases s)
     (auto simp: run_slot_def main_only_disable_button main_only_worker_quit
        intro: main_only_setup_live main_only_toggle main_only_update_layer main_only_dismantle
        split: option.splits)

lemma main_only_run_slots: "run_slots inst arg ss v = Inr v' \<Longrightarrow> main_only v v'"
proof (induction ss arbitrary: v)
  case Nil
  then show ?case by (simp add: main_only_refl)
next
  case (Cons s ss)
  then obtain v1 where 1: "run_slot inst arg s v = Inr v1" and 2: "run_slots inst arg ss v1 = Inr v'"
    by (auto simp: bind_def split: sum.splits)
  from main_only_run_slot[OF 1] Cons.IH[OF 2] show ?case by (rule main_only_trans)
qed

lemma main_only_worker_finish: "worker_finish inst wid v = Inr v' \<Longrightarrow> main_only v v'"
  unfolding worker_finish_def
  by (rule main_only_trans[OF main_only_map_worker main_only_run_slots]) simp_all

lemma main_only_thread_actions:
  "main_only v v' \<Longrightarrow> thread_actions (WorkerThread wid) (trace v') = thread_actions (WorkerThread wid) (trace v)"
  by (simp add: main_only_def)

lemma main_only_worker:
  "main_only v v' \<Longrightarrow> wid < length (workers v) \<Longrightarrow>
   wid < length (workers v') \<and> w_camera (workers v' ! wid) = w_camera (workers v ! wid)"
  by (simp add: main_only_def)

lemma worker_step_cases:
  assumes step: "worker_step inst wid v = Inr v'"
    and wid: "wid < length (workers v)"
    and run: "status (workers v ! wid) = Running"
  shows "wid < length (workers v') \<and>
         w_camera (workers v' ! wid) = w_camera (workers v ! wid) \<and>
         ((thread_actions (WorkerThread wid) (trace v') = thread_actions (WorkerThread wid) (trace v) \<and>
           grabbed v' = grabbed v) \<or>
          (thread_actions (WorkerThread wid) (trace v') =
             thread_actions (WorkerThread wid) (trace v) @
             grab_iteration (w_camera (workers v ! wid)) (grabbed v (w_camera (workers v ! wid))) \<and>
           grabbed v' (w_camera (workers v ! wid)) = Suc (grabbed v (w_camera (workers v ! wid)))))"
proof -
  let ?w = "workers v ! wid"
  let ?cam = "w_camera ?w"
  let ?W = "WorkerThread wid"
  have fin: "?thesis" if "worker_finish inst wid v = Inr v'"
  proof -
    have m: "main_only v v'" using that by (rule main_only_worker_finish)
    then show ?thesis
      using main_only_worker[OF m wid] main_only_thread_actions[OF m]
      by (simp add: main_only_def)
  qed
  show ?thesis
  proof (cases "abort_requested ?w \<or> \<not> lt_frames (w_i ?w) (w_frames ?w)")
    case True
    then have "worker_finish inst wid v = Inr v'"
      using step wid run
      by (auto simp: worker_step_def Let_def grab_frames_next_def bind_def split: if_splits)
    then show ?thesis by (rule fin)
  next
    case False
    define frame where "frame = (Image ?cam (grabbed v ?cam), ?cam)"
    define v2 where "v2 = emit ?W [CamGrabFrame ?cam, Release camera_lock]
        ((emit ?W [Acquire camera_lock] v)\<lparr>grabbed := (grabbed v)(?cam := Suc (grabbed v ?cam))\<rparr>)"
    have nxt: "grab_frames_next inst wid ?w v = Inr (Some frame, v2) \<or>
                grab_frames_next inst wid ?w v = Inl KeyError"
      using False
      by (simp add: grab_frames_next_def Let_def bind_def cameras_getitem_def frame_def v2_def emit_def)
    have eq: "worker_step inst wid v =
        bind (grab_frames_next inst wid ?w v) (\<lambda>(out, v1).
               case out of
                 None \<Rightarrow> worker_finish inst wid v1
               | Some frame \<Rightarrow>
                   bind (run_slots inst (Some frame) (yielded ?w)
                          (emit ?W [Yield frame] v1)) (\<lambda>v2.
                     Inr (map_worker wid (\<lambda>w. w\<lparr>w_i := w_i w + 1\<rparr>) v2)))"
      using False wid run by (simp add: worker_step_def Let_def)
    from nxt step have
      "bind (run_slots inst (Some frame) (yielded ?w) (emit ?W [Yield frame] v2))
         (\<lambda>v2. Inr (map_worker wid (\<lambda>w. w\<lparr>w_i := w_i w + 1\<rparr>) v2)) = Inr v'"
      unfolding eq by (auto simp: bind_def)
    then obtain v3 where
      slots: "run_slots inst (Some frame) (yielded ?w) (emit ?W [Yield frame] v2) = Inr v3"
      and v': "v' = map_worker wid (\<lambda>w. w\<lparr>w_i := w_i w + 1\<rparr>) v3"
      by (cases "run_slots inst (Some frame) (yielded ?w) (emit ?W [Yield frame] v2)")
         (auto simp: bind_def)
    have "main_only v3 v'"
      unfolding v' by (rule main_only_map_worker) simp
    with main_only_run_slots[OF slots] have m: "main_only (emit ?W [Yield frame] v2) v'"
      by (rule main_only_trans)
    have wid2: "wid < length (workers (emit ?W [Yield frame] v2))"
      and cam2: "w_camera (workers (emit ?W [Yield frame] v2) ! wid) = ?cam"
      using wid by (simp_all add: emit_def v2_def)
    have tr2: "thread_actions ?W (trace (emit ?W [Yield frame] v2)) =
        thread_actions ?W (trace v) @ grab_iteration ?cam (grabbed v ?cam)"
      by (simp add: emit_def v2_def grab_iteration_def frame_def)
    have g2: "grabbed (emit ?W [Yield frame] v2) ?cam = Suc (grabbed v ?cam)"
      by (simp add: emit_def v2_def)
    have "grabbed v' = grabbed (emit ?W [Yield frame] v2)" using m by (simp add: main_only_def)
    with main_only_worker[OF m wid2] main_only_thread_actions[OF m, of wid] cam2 tr2 g2
    show ?thesis by simp
  qed
qed

lemma concat_map_upt_Suc:
  "concat (map f [0..<Suc k]) = f 0 @ concat (map (\<lambda>j. f (Suc j)) [0..<k])"
proof -
  have "[0..<Suc k] = 0 # map Suc [0..<k]"
    by (simp add: upt_conv_Cons map_Suc_upt del: upt_Suc)
  then show ?thesis by (simp add: comp_def del: upt_Suc)
qed

lemma worker_run_actions:
  assumes "worker_run inst fuel wid v = Inr v'" and "wid < length (workers v)"
  shows "\<exists>k\<le>fuel.
           thread_actions (WorkerThread wid) (trace v') =
             thread_actions (WorkerThread wid) (trace v) @
             concat (map (\<lambda>j. grab_iteration (w_camera (workers v ! wid))
                                  (grabbed v (w_camera (workers v ! wid)) + j)) [0..<k])"
  using assms
proof (induction fuel arbitrary: v)
  case 0
  then show ?case by simp
next
  case (Suc fuel)
  let ?cam = "w_camera (workers v ! wid)"
  let ?W = "WorkerThread wid"
  show ?case
  proof (cases "status (workers v ! wid) = Running")
    case False
    with Suc.prems have "v' = v" by simp
    then show ?thesis by (intro exI[of _ 0]) simp
  next
    case True
    with Suc.prems obtain v1 where
      step: "worker_step inst wid v = Inr v1" and rest: "worker_run inst fuel wid v1 = Inr v'"
      by (auto simp: bind_def split: sum.splits)
    from worker_step_cases[OF step Suc.prems(2) True]
    have wid1: "wid < length (workers v1)" and cam1: "w_camera (workers v1 ! wid) = ?cam"
      and alt: "(thread_actions ?W (trace v1) = thread_actions ?W (trace v) \<and> grabbed v1 = grabbed v) \<or>
          (thread_actions ?W (trace v1) = thread_actions ?W (trace v) @ grab_iteration ?cam (grabbed v ?cam) \<and>
           grabbed v1 ?cam = Suc (grabbed v ?cam))"
      by simp_all
    from Suc.IH[OF rest wid1] cam1 obtain k where k: "k \<le> fuel"
      and tr: "thread_actions ?W (trace v') = thread_actions ?W (trace v1) @
          concat (map (\<lambda>j. grab_iteration ?cam (grabbed v1 ?cam + j)) [0..<k])"
      by auto
    from alt show ?thesis
    proof
      assume "thread_actions ?W (trace v1) = thread_actions ?W (trace v) \<and> grabbed v1 = grabbed v"
      with tr k show ?thesis by (intro exI[of _ k]) simp
    next
      assume a: "thread_actions ?W (trace v1) = thread_actions ?W (trace v) @ grab_iteration ?cam (grabbed v ?cam) \<and>
           grabbed v1 ?cam = Suc (grabbed v ?cam)"
      have "concat (map (\<lambda>j. grab_iteration ?cam (grabbed v ?cam + j)) [0..<Suc k]) =
            grab_iteration ?cam (grabbed v ?cam) @
            concat (map (\<lambda>j. grab_iteration ?cam (Suc (grabbed v ?cam) + j)) [0..<k])"
        by (subst concat_map_upt_Suc) simp
      with a tr k show ?thesis by (intro exI[of _ "Suc k"]) simp
    qed
  qed
qed

lemma update_layer_total: "\<exists>ls. update_layer args v = Inr (v\<lparr>layers := ls\<rparr>)"
  by (cases args)
     (auto simp: update_layer_def update_layer_try_def layers_getitem_def bind_def Let_def
        add_image_def append_callback_def split: option.splits)

lemma dismantle_live_ok:
  "cam \<in> set (cameras inst) \<Longrightarrow>
   dismantle_live inst cam v =
     Inr (v\<lparr>trace := trace v @ map (Pair MainThread)
            ([Acquire camera_lock, CamAbort cam, Release camera_lock, Acquire daq_lock] @
             map DaqStopAll (daqs inst) @ [Release daq_lock])\<rparr>)"
  by (simp add: dismantle_live_def Let_def bind_def cameras_getitem_def emit_def)

lemma worker_step_yield:
  assumes "wid < length (workers v)" and "workers v ! wid = w" and "status w = Running"
    and "\<not> abort_requested w" and "lt_frames (w_i w) (w_frames w)"
    and "w_camera w = cam" and "cam \<in> set (cameras inst)" and "yielded w = [SlotUpdateLayer]"
  shows "\<exists>ls. worker_step inst wid v =
           Inr (v\<lparr>trace := trace v @ map (Pair (WorkerThread wid)) (grab_iteration cam (grabbed v cam)),
                  grabbed := (grabbed v)(cam := Suc (grabbed v cam)),
                  layers := ls,
                  workers := (workers v)[wid := w\<lparr>w_i := Suc (w_i w)\<rparr>]\<rparr>)"
proof -
  define frame where "frame = (Image cam (grabbed v cam), cam)"
  define v2 where "v2 = v\<lparr>trace := trace v @ map (Pair (WorkerThread wid)) (grab_iteration cam (grabbed v cam)),
                  grabbed := (grabbed v)(cam := Suc (grabbed v cam))\<rparr>"
  have nxt: "grab_frames_next inst wid w v =
      Inr (Some frame, emit (WorkerThread wid) [CamGrabFrame cam, Release camera_lock]
        ((emit (WorkerThread wid) [Acquire camera_lock] v)\<lparr>grabbed := (grabbed v)(cam := Suc (grabbed v cam))\<rparr>))"
    using assms by (simp add: grab_frames_next_def Let_def bind_def cameras_getitem_def frame_def emit_def)
  have e: "emit (WorkerThread wid) [Yield frame]
        (emit (WorkerThread wid) [CamGrabFrame cam, Release camera_lock]
        ((emit (WorkerThread wid) [Acquire camera_lock] v)\<lparr>grabbed := (grabbed v)(cam := Suc (grabbed v cam))\<rparr>)) = v2"
    by (simp add: emit_def v2_def grab_iteration_def frame_def)
  obtain ls where ul: "update_layer frame v2 = Inr (v2\<lparr>layers := ls\<rparr>)"
    using update_layer_total by blast
  have "worker_step inst wid v = Inr (map_worker wid (\<lambda>w. w\<lparr>w_i := w_i w + 1\<rparr>) (v2\<lparr>layers := ls\<rparr>))"
    using assms(1-4,8) by (simp add: worker_step_def Let_def nxt bind_def e run_slot_def ul)
  moreover have "map_worker wid (\<lambda>w. w\<lparr>w_i := w_i w + 1\<rparr>) (v2\<lparr>layers := ls\<rparr>) =
     v\<lparr>trace := trace v @ map (Pair (WorkerThread wid)) (grab_iteration cam (grabbed v cam)),
                  grabbed := (grabbed v)(cam := Suc (grabbed v cam)),
                  layers := ls,
                  workers := (workers v)[wid := w\<lparr>w_i := Suc (w_i w)\<rparr>]\<rparr>"
    using assms(2) by (simp add: map_worker_def v2_def)
  ultimately show ?thesis by auto
qed

lemma worker_step_return:
  assumes "wid < length (workers v)" and "workers v ! wid = w" and "status w = Running"
    and "\<not> abort_requested w" and "\<not> lt_frames (w_i w) (w_frames w)"
    and "cam \<in> set (cameras inst)" and "finished w = [SlotDismantleLive cam]"
  shows "worker_step inst wid v =
           Inr (v\<lparr>workers := (workers v)[wid := w\<lparr>status := Done\<rparr>],
                  trace := trace v @ map (Pair MainThread)
                    ([Acquire camera_lock, CamAbort cam, Release camera_lock, Acquire daq_lock] @
                     map DaqStopAll (daqs inst) @ [Release daq_lock])\<rparr>)"
  using assms
  by (simp add: worker_step_def Let_def grab_frames_next_def bind_def worker_finish_def
      run_slot_def dismantle_live_ok map_worker_def)

lemma worker_run_finite:
  assumes "wid < length (workers v)" and "workers v ! wid = w" and "status w = Running"
    and "\<not> abort_requested w" and "w_frames w = Finite (int N)" and "w_i w + d = N"
    and "w_camera w = cam" and "cam \<in> set (cameras inst)"
    and "yielded w = [SlotUpdateLayer]" and "finished w = [SlotDismantleLive cam]"
  shows "\<exists>ls. worker_run inst (Suc d) wid v =
           Inr (v\<lparr>trace := trace v @
                    map (Pair (WorkerThread wid))
                      (concat (map (\<lambda>j. grab_iteration cam (grabbed v cam + j)) [0..<d])) @
                    map (Pair MainThread)
                      ([Acquire camera_lock, CamAbort cam, Release camera_lock, Acquire daq_lock] @
                       map DaqStopAll (daqs inst) @ [Release daq_lock]),
                  grabbed := (grabbed v)(cam := grabbed v cam + d),
                  layers := ls,
                  workers := (workers v)[wid := w\<lparr>w_i := N, status := Done\<rparr>]\<rparr>)"
  using assms
proof (induction d arbitrary: v w)
  case 0
  then have nlt: "\<not> lt_frames (w_i w) (w_frames w)" by simp
  have w: "w\<lparr>w_i := N, status := Done\<rparr> = w\<lparr>status := Done\<rparr>" using 0 by simp
  have "worker_run inst (Suc 0) wid v =
           Inr (v\<lparr>workers := (workers v)[wid := w\<lparr>status := Done\<rparr>],
                  trace := trace v @ map (Pair MainThread)
                    ([Acquire camera_lock, CamAbort cam, Release camera_lock, Acquire daq_lock] @
                     map DaqStopAll (daqs inst) @ [Release daq_lock])\<rparr>)"
    using 0
    by (simp add: worker_step_return[OF "0.prems"(1-4) nlt "0.prems"(8,10)] bind_def)
  then show ?case
    by (intro exI[of _ "layers v"]) (simp add: w)
next
  case (Suc d)
  let ?W = "WorkerThread wid"
  let ?g = "grabbed v cam"
  have lt: "lt_frames (w_i w) (w_frames w)" using Suc.prems by simp
  from worker_step_yield[OF Suc.prems(1-4) lt Suc.prems(7-9)] obtain ls1 where
    step: "worker_step inst wid v =
           Inr (v\<lparr>trace := trace v @ map (Pair ?W) (grab_iteration cam ?g),
                  grabbed := (grabbed v)(cam := Suc ?g),
                  layers := ls1,
                  workers := (workers v)[wid := w\<lparr>w_i := Suc (w_i w)\<rparr>]\<rparr>)" (is "_ = Inr ?v1")
    by blast
  let ?w1 = "w\<lparr>w_i := Suc (w_i w)\<rparr>"
  have p1: "wid < length (workers ?v1)" "workers ?v1 ! wid = ?w1" "status ?w1 = Running"
    "\<not> abort_requested ?w1" "w_frames ?w1 = Finite (int N)" "w_i ?w1 + d = N"
    "w_camera ?w1 = cam" "cam \<in> set (cameras inst)"
    "yielded ?w1 = [SlotUpdateLayer]" "finished ?w1 = [SlotDismantleLive cam]"
    using Suc.prems by simp_all
  from Suc.IH[OF p1] obtain ls where
    run: "worker_run inst (Suc d) wid ?v1 =
           Inr (?v1\<lparr>trace := trace ?v1 @
                    map (Pair ?W) (concat (map (\<lambda>j. grab_iteration cam (grabbed ?v1 cam + j)) [0..<d])) @
                    map (Pair MainThread)
                      ([Acquire camera_lock, CamAbort cam, Release camera_lock, Acquire daq_lock] @
                       map DaqStopAll (daqs inst) @ [Release daq_lock]),
                  grabbed := (grabbed ?v1)(cam := grabbed ?v1 cam + d),
                  layers := ls,
                  workers := (workers ?v1)[wid := ?w1\<lparr>w_i := N, status := Done\<rparr>]\<rparr>)"
    by blast
  have c: "concat (map (\<lambda>j. grab_iteration cam (?g + j)) [0..<Suc d]) =
        grab_iteration cam ?g @ concat (map (\<lambda>j. grab_iteration cam (Suc ?g + j)) [0..<d])"
    by (subst concat_map_upt_Suc) simp
  have "worker_run inst (Suc (Suc d)) wid v = worker_run inst (Suc d) wid ?v1"
    using Suc.prems(1-3) step by (simp add: bind_def)
  also note run
  finally have fin: "worker_run inst (Suc (Suc d)) wid v = Inr
      (?v1\<lparr>trace := trace ?v1 @
                    map (Pair ?W) (concat (map (\<lambda>j. grab_iteration cam (grabbed ?v1 cam + j)) [0..<d])) @
                    map (Pair MainThread)
                      ([Acquire camera_lock, CamAbort cam, Release camera_lock, Acquire daq_lock] @
                       map DaqStopAll (daqs inst) @ [Release daq_lock]),
                  grabbed := (grabbed ?v1)(cam := grabbed ?v1 cam + d),
                  layers := ls,
                  workers := (workers ?v1)[wid := ?w1\<lparr>w_i := N, status := Done\<rparr>]\<rparr>)" .
  have g: "(\<lambda>a. if a = cam then Suc (?g + d) else grabbed v a) = (grabbed v)(cam := Suc (?g + d))"
    by (simp add: fun_eq_iff)
  show ?case
    unfolding fin by (intro exI[of _ ls]) (simp add: c g del: upt_Suc)
qed

lemma emit_emit: "emit t as (emit t bs v) = emit t (bs @ as) v"
  by (simp add: emit_def)

lemma setup_live_daqs_ok:
  assumes "\<forall>d\<in>set ds. \<exists>t. daq_tasks inst d = Some t \<and> t ''ao_task'' = Some (ao_task d) \<and>
                                t ''do_task'' = Some (do_task d)"
  shows "setup_live_daqs inst ds v =
           Inr (emit MainThread
                  (concat (map (daq_start_actions ao_task do_task (livestream_wavelength v)) ds)) v)"
  using assms
proof (induction ds arbitrary: v)
  case Nil
  then show ?case by (simp add: emit_def)
next
  case (Cons d ds)
  then obtain t where t: "daq_tasks inst d = Some t" "t ''ao_task'' = Some (ao_task d)"
    "t ''do_task'' = Some (do_task d)" by auto
  have 1: "setup_live_daq inst d v =
      Inr (emit MainThread (daq_start_actions ao_task do_task (livestream_wavelength v) d) v)"
    by (simp add: setup_live_daq_def t daq_start_actions_def)
  have wl: "livestream_wavelength (emit MainThread as v) = livestream_wavelength v" for as
    by (simp add: emit_def)
  from Cons show ?case
    by (simp add: 1 bind_def wl emit_emit)
qed

lemma setup_live_ok:
  assumes cam: "cam \<in> set (cameras inst)"
    and cfg: "\<forall>d\<in>set (daqs inst). \<exists>t. daq_tasks inst d = Some t \<and> t ''ao_task'' = Some (ao_task d) \<and>
                                t ''do_task'' = Some (do_task d)"
  shows "setup_live inst cam frames v =
     Inr (v\<lparr>grab_frames_worker := Some (length (workers v)),
            workers := workers v @
              [\<lparr>w_camera = cam, w_frames = frames, w_i = 0, yielded = [SlotUpdateLayer],
                finished = [SlotDismantleLive cam], status = Running, abort_requested = False\<rparr>],
            trace := trace v @ map (Pair MainThread)
              ([CreateWorker (length (workers v)) cam frames,
                ConnectYielded (length (workers v)) SlotUpdateLayer,
                ConnectFinished (length (workers v)) (SlotDismantleLive cam),
                StartWorker (length (workers v)),
                Acquire camera_lock, CamPrepare cam, CamStart cam frames, Release camera_lock,
                Acquire daq_lock] @
               concat (map (daq_start_actions ao_task do_task (livestream_wavelength v)) (daqs inst)) @
               [Release daq_lock])\<rparr>)"
  using cam
  by (simp add: setup_live_def grab_frames_def connect_yielded_def connect_finished_def
      start_worker_def map_worker_def Let_def bind_def cameras_getitem_def
      setup_live_daqs_ok[OF cfg] emit_def)

lemma setup_live_daqs_Inr:
  "setup_live_daqs inst ds v = Inr v' \<Longrightarrow> \<exists>as. v' = emit MainThread as v"
proof (induction ds arbitrary: v)
  case Nil
  then show ?case by (auto simp: emit_def intro: exI[of _ "[]"])
next
  case (Cons d ds)
  then obtain v1 where 1: "setup_live_daq inst d v = Inr v1" and 2: "setup_live_daqs inst ds v1 = Inr v'"
    by (auto simp: bind_def split: sum.splits)
  from 1 obtain as1 where "v1 = emit MainThread as1 v"
    by (auto simp: setup_live_daq_def split: option.splits)
  with Cons.IH[OF 2] show ?case by (auto simp: emit_emit)
qed

lemma setup_live_Inr:
  assumes "setup_live inst cam frames v = Inr v'"
  shows "cam \<in> set (cameras inst) \<and>
         grab_frames_worker v' = Some (length (workers v)) \<and>
         workers v' = workers v @
              [\<lparr>w_camera = cam, w_frames = frames, w_i = 0, yielded = [SlotUpdateLayer],
                finished = [SlotDismantleLive cam], status = Running, abort_requested = False\<rparr>] \<and>
         grabbed v' = grabbed v \<and> layers v' = layers v \<and> buttons v' = buttons v \<and>
         timers v' = timers v"
proof -
  have cam: "cam \<in> set (cameras inst)"
    using assms
    by (auto simp: setup_live_def grab_frames_def Let_def bind_def cameras_getitem_def
        split: if_splits)
  define v7 where "v7 = emit MainThread [Acquire daq_lock]
     (emit MainThread [CamPrepare cam, CamStart cam frames, Release camera_lock]
      (emit MainThread [Acquire camera_lock]
       (start_worker (length (workers v))
         (connect_finished (length (workers v)) (SlotDismantleLive cam)
           (connect_yielded (length (workers v)) SlotUpdateLayer
             ((snd (grab_frames cam frames v))\<lparr>grab_frames_worker := Some (length (workers v))\<rparr>))))))"
  from assms cam obtain v8 where d: "setup_live_daqs inst (daqs inst) v7 = Inr v8"
    and v': "v' = emit MainThread [Release daq_lock] v8"
    by (auto simp: setup_live_def grab_frames_def Let_def bind_def cameras_getitem_def v7_def
        split: sum.splits)
  from setup_live_daqs_Inr[OF d] obtain as where "v8 = emit MainThread as v7" by blast
  with v' cam show ?thesis
    by (simp add: v7_def emit_def grab_frames_def connect_yielded_def connect_finished_def
        start_worker_def map_worker_def)
qed

lemma yields_append [simp]: "yields (xs @ ys) = yields xs @ yields ys"
  by (simp add: yields_def)

lemma yields_iterations:
  "yields (map (Pair t) (concat (map (\<lambda>j. grab_iteration cam (g + j)) js))) =
   map (\<lambda>j. (Image cam (g + j), cam)) js"
  by (induction js) (simp_all add: yields_def grab_iteration_def)

lemma yields_stop_all [simp]: "yields (map (Pair t \<circ> DaqStopAll) ds) = []"
  by (induction ds) (simp_all add: yields_def)

lemma count_list_other_thread:
  "t \<noteq> u \<Longrightarrow> count_list (map (Pair t) as) (u, a) = 0"
  by (induction as) simp_all

lemma count_list_stop_all [simp]: "count_list (map (Pair t \<circ> DaqStopAll) ds) (u, CamAbort c) = 0"
  by (induction ds) simp_all

lemma lock_discipline_iterations:
  "lock_discipline {} (concat (map (\<lambda>j. grab_iteration cam (g + j)) js))"
  by (induction js) (simp_all add: grab_iteration_def)

lemma example_setup_live:
  "\<exists>v. setup_live example_instrument ''cam0'' frames init_view = Inr v"
proof -
  have "''cam0'' \<in> set (cameras example_instrument)"
    by (simp add: example_instrument_def)
  moreover have "\<forall>d\<in>set (daqs example_instrument). \<exists>t. daq_tasks example_instrument d = Some t \<and>
      t ''ao_task'' = Some ((\<lambda>_. ''ao0'') d) \<and> t ''do_task'' = Some ((\<lambda>_. ''do0'') d)"
    by (simp add: example_instrument_def)
  ultimately show ?thesis
    using setup_live_ok[of "''cam0''" example_instrument "\<lambda>_. ''ao0''" "\<lambda>_. ''do0''"] by blast
qed

lemma snapshot_started_eq:
  "setup_live example_instrument ''cam0'' (Finite 1) init_view = Inr snapshot_started"
  using example_setup_live[of "Finite 1"] by (auto simp: snapshot_started_def)

lemma zero_started_eq:
  "setup_live example_instrument ''cam0'' (Finite 0) init_view = Inr zero_started"
  using example_setup_live[of "Finite 0"] by (auto simp: zero_started_def)

section \<open>The frame acquisition worker\<close>

text \<open>
  Claim C1. A worker started by \<open>setup_live\<close> with a finite count \<open>N\<close> ends after \<open>N\<close>
  passes of its loop, without any stop request: it has emitted exactly the camera's next
  \<open>N\<close> frames, in the order the camera delivered them, and after the last one the teardown
  \<open>dismantle_live\<close> has run, once (one \<open>abort\<close> of the camera, then \<open>stop_all\<close> on the
  daqs). Nothing else is in the trace. A snapshot is the case \<open>N = 1\<close>.
\<close>

theorem finite_worker_emits_all_frames_then_one_teardown:
  assumes "setup_live inst cam (Finite (int N)) v = Inr v1"
  shows "\<exists>v2. worker_run inst (Suc N) (length (workers v)) v1 = Inr v2 \<and>
           status (workers v2 ! length (workers v)) = Done \<and>
           \<not> abort_requested (workers v2 ! length (workers v)) \<and>
           trace v2 = trace v1 @
             map (Pair (WorkerThread (length (workers v))))
               (concat (map (\<lambda>j. [Acquire camera_lock, CamGrabFrame cam, Release camera_lock,
                                   Yield (Image cam (grabbed v cam + j), cam)]) [0..<N])) @
             map (Pair MainThread)
               ([Acquire camera_lock, CamAbort cam, Release camera_lock, Acquire daq_lock] @
                map DaqStopAll (daqs inst) @ [Release daq_lock]) \<and>
           yields (trace v2) = yields (trace v1) @ map (\<lambda>j. (Image cam (grabbed v cam + j), cam)) [0..<N] \<and>
           count_list (trace v2) (MainThread, CamAbort cam) =
             Suc (count_list (trace v1) (MainThread, CamAbort cam))"
proof -
  let ?wid = "length (workers v)"
  let ?w = "\<lparr>w_camera = cam, w_frames = Finite (int N), w_i = 0, yielded = [SlotUpdateLayer],
             finished = [SlotDismantleLive cam], status = Running, abort_requested = False\<rparr>"
  from setup_live_Inr[OF assms] have cam: "cam \<in> set (cameras inst)"
    and ws: "workers v1 = workers v @ [?w]" and g: "grabbed v1 = grabbed v"
    by simp_all
  have p: "?wid < length (workers v1)" "workers v1 ! ?wid = ?w" "status ?w = Running"
    "\<not> abort_requested ?w" "w_frames ?w = Finite (int N)" "w_i ?w + N = N" "w_camera ?w = cam"
    "yielded ?w = [SlotUpdateLayer]" "finished ?w = [SlotDismantleLive cam]"
    by (simp_all add: ws)
  from worker_run_finite[OF p(1-7) cam p(8,9)] obtain ls where
    run: "worker_run inst (Suc N) ?wid v1 =
           Inr (v1\<lparr>trace := trace v1 @
                    map (Pair (WorkerThread ?wid))
                      (concat (map (\<lambda>j. grab_iteration cam (grabbed v1 cam + j)) [0..<N])) @
                    map (Pair MainThread)
                      ([Acquire camera_lock, CamAbort cam, Release camera_lock, Acquire daq_lock] @
                       map DaqStopAll (daqs inst) @ [Release daq_lock]),
                  grabbed := (grabbed v1)(cam := grabbed v1 cam + N),
                  layers := ls,
                  workers := (workers v1)[?wid := ?w\<lparr>w_i := N, status := Done\<rparr>]\<rparr>)" (is "_ = Inr ?v2")
    by blast
  have y: "yields (trace ?v2) = yields (trace v1) @ map (\<lambda>j. (Image cam (grabbed v cam + j), cam)) [0..<N]"
    by (simp add: g yields_iterations del: upt_Suc) (simp add: yields_def)
  have c: "count_list (trace ?v2) (MainThread, CamAbort cam) =
             Suc (count_list (trace v1) (MainThread, CamAbort cam))"
    by (simp add: count_list_other_thread del: upt_Suc)
  have "status (workers ?v2 ! ?wid) = Done" "\<not> abort_requested (workers ?v2 ! ?wid)"
    by (simp_all add: ws)
  moreover have "trace ?v2 = trace v1 @
             map (Pair (WorkerThread ?wid))
               (concat (map (\<lambda>j. [Acquire camera_lock, CamGrabFrame cam, Release camera_lock,
                                   Yield (Image cam (grabbed v cam + j), cam)]) [0..<N])) @
             map (Pair MainThread)
               ([Acquire camera_lock, CamAbort cam, Release camera_lock, Acquire daq_lock] @
                map DaqStopAll (daqs inst) @ [Release daq_lock])"
    by (simp add: g grab_iteration_def del: upt_Suc)
  ultimately show ?thesis
    unfolding run using y c by blast
qed

theorem snapshot_emits_one_frame_then_teardown:
  "setup_live example_instrument ''cam0'' (Finite (int 1)) init_view = Inr snapshot_started \<and>
   (\<exists>v2. worker_run example_instrument (Suc 1) (length (workers init_view)) snapshot_started = Inr v2 \<and>
      status (workers v2 ! 0) = Done \<and>
      \<not> abort_requested (workers v2 ! 0) \<and>
      trace v2 = trace snapshot_started @
        [(WorkerThread 0, Acquire camera_lock), (WorkerThread 0, CamGrabFrame ''cam0''),
         (WorkerThread 0, Release camera_lock), (WorkerThread 0, Yield (Image ''cam0'' 0, ''cam0'')),
         (MainThread, Acquire camera_lock), (MainThread, CamAbort ''cam0''),
         (MainThread, Release camera_lock), (MainThread, Acquire daq_lock),
         (MainThread, DaqStopAll ''daq0''), (MainThread, Release daq_lock)] \<and>
      yields (trace v2) = yields (trace snapshot_started) @ [(Image ''cam0'' 0, ''cam0'')] \<and>
      count_list (trace v2) (MainThread, CamAbort ''cam0'') =
        Suc (count_list (trace snapshot_started) (MainThread, CamAbort ''cam0'')))"
proof -
  have h: "setup_live example_instrument ''cam0'' (Finite (int 1)) init_view = Inr snapshot_started"
    using snapshot_started_eq by simp
  from finite_worker_emits_all_frames_then_one_teardown[OF h] h show ?thesis
    by (simp add: init_view_def example_instrument_def)
qed

lemma snapshot_started_facts:
  "workers snapshot_started =
     [\<lparr>w_camera = ''cam0'', w_frames = Finite 1, w_i = 0, yielded = [SlotUpdateLayer],
       finished = [SlotDismantleLive ''cam0''], status = Running, abort_requested = False\<rparr>]"
  "grab_frames_worker snapshot_started = Some 0"
  "grabbed snapshot_started = (\<lambda>_. 0)"
  "trace snapshot_started =
     [(MainThread, CreateWorker 0 ''cam0'' (Finite 1)),
      (MainThread, ConnectYielded 0 SlotUpdateLayer),
      (MainThread, ConnectFinished 0 (SlotDismantleLive ''cam0'')),
      (MainThread, StartWorker 0),
      (MainThread, Acquire camera_lock), (MainThread, CamPrepare ''cam0''),
      (MainThread, CamStart ''cam0'' (Finite 1)), (MainThread, Release camera_lock),
      (MainThread, Acquire daq_lock),
      (MainThread, DaqGenerateWaveforms ''daq0'' ''ao0'' ''ao'' ''488''),
      (MainThread, DaqGenerateWaveforms ''daq0'' ''do0'' ''do'' ''488''),
      (MainThread, DaqWriteAo ''daq0''), (MainThread, DaqWriteDo ''daq0''),
      (MainThread, DaqStartAll ''daq0''), (MainThread, Release daq_lock)]"
proof -
  have c: "''cam0'' \<in> set (cameras example_instrument)"
    by (simp add: example_instrument_def)
  have t: "\<forall>d\<in>set (daqs example_instrument). \<exists>t. daq_tasks example_instrument d = Some t \<and>
      t ''ao_task'' = Some ((\<lambda>_. ''ao0'') d) \<and> t ''do_task'' = Some ((\<lambda>_. ''do0'') d)"
    by (simp add: example_instrument_def)
  note e = snapshot_started_eq[unfolded setup_live_ok[OF c t, of "Finite 1" init_view], simplified, symmetric]
  show "workers snapshot_started =
     [\<lparr>w_camera = ''cam0'', w_frames = Finite 1, w_i = 0, yielded = [SlotUpdateLayer],
       finished = [SlotDismantleLive ''cam0''], status = Running, abort_requested = False\<rparr>]"
    by (subst e) (simp add: init_view_def)
  show "grab_frames_worker snapshot_started = Some 0"
    by (subst e) (simp add: init_view_def)
  show "grabbed snapshot_started = (\<lambda>_. 0)"
    by (subst e) (simp add: init_view_def)
  show "trace snapshot_started =
     [(MainThread, CreateWorker 0 ''cam0'' (Finite 1)),
      (MainThread, ConnectYielded 0 SlotUpdateLayer),
      (MainThread, ConnectFinished 0 (SlotDismantleLive ''cam0'')),
      (MainThread, StartWorker 0),
      (MainThread, Acquire camera_lock), (MainThread, CamPrepare ''cam0''),
      (MainThread, CamStart ''cam0'' (Finite 1)), (MainThread, Release camera_lock),
      (MainThread, Acquire daq_lock),
      (MainThread, DaqGenerateWaveforms ''daq0'' ''ao0'' ''ao'' ''488''),
      (MainThread, DaqGenerateWaveforms ''daq0'' ''do0'' ''do'' ''488''),
      (MainThread, DaqWriteAo ''daq0''), (MainThread, DaqWriteDo ''daq0''),
      (MainThread, DaqStartAll ''daq0''), (MainThread, Release daq_lock)]"
    by (subst e) (simp add: init_view_def example_instrument_def daq_start_actions_def)
qed

lemma snapshot_finished_eq:
  "worker_run example_instrument 2 0 snapshot_started = Inr snapshot_finished"
proof -
  let ?w = "\<lparr>w_camera = ''cam0'', w_frames = Finite (int 1), w_i = 0, yielded = [SlotUpdateLayer],
       finished = [SlotDismantleLive ''cam0''], status = Running, abort_requested = False\<rparr>"
  have p: "0 < length (workers snapshot_started)" "workers snapshot_started ! 0 = ?w"
    "status ?w = Running" "\<not> abort_requested ?w" "w_frames ?w = Finite (int 1)" "w_i ?w + 1 = 1"
    "w_camera ?w = ''cam0''" "''cam0'' \<in> set (cameras example_instrument)"
    "yielded ?w = [SlotUpdateLayer]" "finished ?w = [SlotDismantleLive ''cam0'']"
    by (simp_all add: snapshot_started_facts example_instrument_def)
  from worker_run_finite[OF p] obtain x where
    "worker_run example_instrument (Suc 1) 0 snapshot_started = Inr x" by blast
  then show ?thesis by (simp add: snapshot_finished_def numeral_2_eq_2)
qed

lemma snapshot_finished_facts:
  "grab_frames_worker snapshot_finished = Some 0"
  "map status (workers snapshot_finished) = [Done]"
  "trace snapshot_finished = trace snapshot_started @
     [(WorkerThread 0, Acquire camera_lock), (WorkerThread 0, CamGrabFrame ''cam0''),
      (WorkerThread 0, Release camera_lock), (WorkerThread 0, Yield (Image ''cam0'' 0, ''cam0'')),
      (MainThread, Acquire camera_lock), (MainThread, CamAbort ''cam0''),
      (MainThread, Release camera_lock), (MainThread, Acquire daq_lock),
      (MainThread, DaqStopAll ''daq0''), (MainThread, Release daq_lock)]"
proof -
  let ?w = "\<lparr>w_camera = ''cam0'', w_frames = Finite (int 1), w_i = 0, yielded = [SlotUpdateLayer],
       finished = [SlotDismantleLive ''cam0''], status = Running, abort_requested = False\<rparr>"
  have p: "0 < length (workers snapshot_started)" "workers snapshot_started ! 0 = ?w"
    "status ?w = Running" "\<not> abort_requested ?w" "w_frames ?w = Finite (int 1)" "w_i ?w + 1 = 1"
    "w_camera ?w = ''cam0''" "''cam0'' \<in> set (cameras example_instrument)"
    "yielded ?w = [SlotUpdateLayer]" "finished ?w = [SlotDismantleLive ''cam0'']"
    by (simp_all add: snapshot_started_facts example_instrument_def)
  from worker_run_finite[OF p] obtain ls where
    "worker_run example_instrument (Suc 1) 0 snapshot_started = Inr
       (snapshot_started\<lparr>trace := trace snapshot_started @
                    map (Pair (WorkerThread 0))
                      (concat (map (\<lambda>j. grab_iteration ''cam0'' (grabbed snapshot_started ''cam0'' + j)) [0..<1])) @
                    map (Pair MainThread)
                      ([Acquire camera_lock, CamAbort ''cam0'', Release camera_lock, Acquire daq_lock] @
                       map DaqStopAll (daqs example_instrument) @ [Release daq_lock]),
                  grabbed := (grabbed snapshot_started)(''cam0'' := grabbed snapshot_started ''cam0'' + 1),
                  layers := ls,
                  workers := (workers snapshot_started)[0 := ?w\<lparr>w_i := 1, status := Done\<rparr>]\<rparr>)"
    by blast
  then have e: "snapshot_finished = snapshot_started\<lparr>trace := trace snapshot_started @
                    map (Pair (WorkerThread 0))
                      (concat (map (\<lambda>j. grab_iteration ''cam0'' (grabbed snapshot_started ''cam0'' + j)) [0..<1])) @
                    map (Pair MainThread)
                      ([Acquire camera_lock, CamAbort ''cam0'', Release camera_lock, Acquire daq_lock] @
                       map DaqStopAll (daqs example_instrument) @ [Release daq_lock]),
                  grabbed := (grabbed snapshot_started)(''cam0'' := grabbed snapshot_started ''cam0'' + 1),
                  layers := ls,
                  workers := (workers snapshot_started)[0 := ?w\<lparr>w_i := 1, status := Done\<rparr>]\<rparr>"
    using snapshot_finished_eq by (simp add: numeral_2_eq_2)
  show "grab_frames_worker snapshot_finished = Some 0"
    by (subst e) (simp add: snapshot_started_facts)
  show "map status (workers snapshot_finished) = [Done]"
    by (subst e) (simp add: snapshot_started_facts)
  show "trace snapshot_finished = trace snapshot_started @
     [(WorkerThread 0, Acquire camera_lock), (WorkerThread 0, CamGrabFrame ''cam0''),
      (WorkerThread 0, Release camera_lock), (WorkerThread 0, Yield (Image ''cam0'' 0, ''cam0'')),
      (MainThread, Acquire camera_lock), (MainThread, CamAbort ''cam0''),
      (MainThread, Release camera_lock), (MainThread, Acquire daq_lock),
      (MainThread, DaqStopAll ''daq0''), (MainThread, Release daq_lock)]"
    by (subst e) (simp add: snapshot_started_facts(3) grab_iteration_def example_instrument_def)
qed

text \<open>
  Claim C6. Whatever the worker's thread does in a run is a sequence of passes of the loop,
  each one: take the camera lock, grab the frame, release the lock, and only then emit the
  frame. So a frame is grabbed only under the camera lock and emitted only with no lock
  held; a \<open>quit\<close> that arrives while a frame is being emitted finds the lock free.
\<close>

theorem worker_releases_camera_lock_before_yield:
  assumes "worker_run inst fuel wid v = Inr v'" and "wid < length (workers v)"
  shows "\<exists>k\<le>fuel.
           thread_actions (WorkerThread wid) (trace v') =
             thread_actions (WorkerThread wid) (trace v) @
             concat (map (\<lambda>j. [Acquire camera_lock, CamGrabFrame (w_camera (workers v ! wid)),
                                 Release camera_lock,
                                 Yield (Image (w_camera (workers v ! wid))
                                          (grabbed v (w_camera (workers v ! wid)) + j),
                                        w_camera (workers v ! wid))]) [0..<k]) \<and>
           lock_discipline {}
             (concat (map (\<lambda>j. [Acquire camera_lock, CamGrabFrame (w_camera (workers v ! wid)),
                                 Release camera_lock,
                                 Yield (Image (w_camera (workers v ! wid))
                                          (grabbed v (w_camera (workers v ! wid)) + j),
                                        w_camera (workers v ! wid))]) [0..<k]))"
  using worker_run_actions[OF assms]
    lock_discipline_iterations[of "w_camera (workers v ! wid)" "grabbed v (w_camera (workers v ! wid))"]
  unfolding grab_iteration_def by blast

theorem snapshot_worker_lock_discipline:
  "worker_run example_instrument 2 0 snapshot_started = Inr snapshot_finished \<and>
   0 < length (workers snapshot_started) \<and>
   (\<exists>k\<le>2. thread_actions (WorkerThread 0) (trace snapshot_finished) =
             thread_actions (WorkerThread 0) (trace snapshot_started) @
             concat (map (\<lambda>j. [Acquire camera_lock, CamGrabFrame ''cam0'', Release camera_lock,
                                 Yield (Image ''cam0'' j, ''cam0'')]) [0..<k]) \<and>
           lock_discipline {}
             (concat (map (\<lambda>j. [Acquire camera_lock, CamGrabFrame ''cam0'', Release camera_lock,
                                 Yield (Image ''cam0'' j, ''cam0'')]) [0..<k])))"
proof -
  have h: "0 < length (workers snapshot_started)" by (simp add: snapshot_started_facts)
  from worker_releases_camera_lock_before_yield[OF snapshot_finished_eq h] snapshot_finished_eq h show ?thesis
    by (simp add: snapshot_started_facts)
qed

text \<open>
  Claim C10. With a count of zero or less the loop test fails at once: the worker ends in
  its first turn without any action of its own (no lock taken, no frame grabbed or
  emitted), and its \<open>finished\<close> signal, connected to \<open>dismantle_live\<close> by \<open>setup_live\<close>,
  runs the teardown once.
\<close>

theorem nonpositive_frames_no_emission_one_teardown:
  assumes "setup_live inst cam (Finite n) v = Inr v1" and "n \<le> 0"
  shows "\<exists>v2. worker_run inst 1 (length (workers v)) v1 = Inr v2 \<and>
           status (workers v2 ! length (workers v)) = Done \<and>
           trace v2 = trace v1 @
             map (Pair MainThread)
               ([Acquire camera_lock, CamAbort cam, Release camera_lock, Acquire daq_lock] @
                map DaqStopAll (daqs inst) @ [Release daq_lock]) \<and>
           thread_actions (WorkerThread (length (workers v))) (trace v2) =
             thread_actions (WorkerThread (length (workers v))) (trace v1) \<and>
           yields (trace v2) = yields (trace v1) \<and>
           count_list (trace v2) (MainThread, CamAbort cam) =
             Suc (count_list (trace v1) (MainThread, CamAbort cam))"
proof -
  let ?wid = "length (workers v)"
  let ?w = "\<lparr>w_camera = cam, w_frames = Finite n, w_i = 0, yielded = [SlotUpdateLayer],
             finished = [SlotDismantleLive cam], status = Running, abort_requested = False\<rparr>"
  from setup_live_Inr[OF assms(1)] have cam: "cam \<in> set (cameras inst)"
    and ws: "workers v1 = workers v @ [?w]"
    by simp_all
  have p: "?wid < length (workers v1)" "workers v1 ! ?wid = ?w" "status ?w = Running"
    "\<not> abort_requested ?w" "\<not> lt_frames (w_i ?w) (w_frames ?w)"
    "finished ?w = [SlotDismantleLive cam]"
    using assms(2) by (simp_all add: ws)
  have run: "worker_run inst 1 ?wid v1 =
           Inr (v1\<lparr>workers := (workers v1)[?wid := ?w\<lparr>status := Done\<rparr>],
                  trace := trace v1 @ map (Pair MainThread)
                    ([Acquire camera_lock, CamAbort cam, Release camera_lock, Acquire daq_lock] @
                     map DaqStopAll (daqs inst) @ [Release daq_lock])\<rparr>)"
    using p(1,2) by (simp add: worker_step_return[OF p(1-5) cam p(6)] bind_def)
  show ?thesis
    unfolding run by (simp add: ws yields_def)
qed

theorem zero_frames_worker_witness:
  "setup_live example_instrument ''cam0'' (Finite 0) init_view = Inr zero_started \<and> (0::int) \<le> 0 \<and>
   (\<exists>v2. worker_run example_instrument 1 (length (workers init_view)) zero_started = Inr v2 \<and>
      status (workers v2 ! 0) = Done \<and>
      trace v2 = trace zero_started @
        [(MainThread, Acquire camera_lock), (MainThread, CamAbort ''cam0''),
         (MainThread, Release camera_lock), (MainThread, Acquire daq_lock),
         (MainThread, DaqStopAll ''daq0''), (MainThread, Release daq_lock)] \<and>
      thread_actions (WorkerThread 0) (trace v2) = thread_actions (WorkerThread 0) (trace zero_started) \<and>
      yields (trace v2) = yields (trace zero_started) \<and>
      count_list (trace v2) (MainThread, CamAbort ''cam0'') =
        Suc (count_list (trace zero_started) (MainThread, CamAbort ''cam0'')))"
proof -
  have h: "(0::int) \<le> 0" by simp
  from nonpositive_frames_no_emission_one_teardown[OF zero_started_eq h] zero_started_eq show ?thesis
    by (simp add: init_view_def example_instrument_def)
qed

section \<open>The live session controller\<close>

lemma step_held_pair:
  "step_held t H (u, a) =
     (case a of
        Acquire l \<Rightarrow> if u = t then insert l H else H
      | Release l \<Rightarrow> if u = t then H - {l} else H
      | _ \<Rightarrow> H)"
  by (simp add: step_held_def)

lemma never_both_Nil: "never_both t H [] \<longleftrightarrow> \<not> (camera_lock \<in> H \<and> daq_lock \<in> H)"
  by (simp add: never_both_def)

lemma never_both_Cons:
  "never_both t H (e # es) \<longleftrightarrow>
   \<not> (camera_lock \<in> H \<and> daq_lock \<in> H) \<and> never_both t (step_held t H e) es"
  (is "?L \<longleftrightarrow> ?R")
proof
  assume l: ?L
  have "\<not> (camera_lock \<in> H \<and> daq_lock \<in> H)"
    using l[unfolded never_both_def, rule_format, of 0] by simp
  moreover have "\<not> (camera_lock \<in> foldl (step_held t) (step_held t H e) (take n es) \<and>
             daq_lock \<in> foldl (step_held t) (step_held t H e) (take n es))" for n
    using l[unfolded never_both_def, rule_format, of "Suc n"] by simp
  ultimately show ?R by (simp add: never_both_def)
next
  assume r: ?R
  show ?L
    unfolding never_both_def
  proof
    fix n
    show "\<not> (camera_lock \<in> foldl (step_held t) H (take n (e # es)) \<and>
             daq_lock \<in> foldl (step_held t) H (take n (e # es)))"
      using r by (cases n) (auto simp: never_both_def)
  qed
qed

lemma never_both_daq_start:
  "never_both t H (map (Pair u) (concat (map (daq_start_actions a b wl) ds)) @ es) \<longleftrightarrow>
   never_both t H es"
proof (induction ds)
  case Nil
  show ?case by simp
next
  case (Cons d ds)
  have "never_both t H es \<Longrightarrow> \<not> (camera_lock \<in> H \<and> daq_lock \<in> H)"
    by (cases es) (simp_all add: never_both_Nil never_both_Cons)
  then show ?case
    using Cons.IH
    by (auto simp: daq_start_actions_def never_both_Cons step_held_pair)
qed

text \<open>
  Claim C4. When the camera exists and every daq has its two tasks in the config,
  \<open>setup_live\<close> succeeds and does exactly this, in this order: make the worker, connect
  \<open>update_layer\<close> to its \<open>yielded\<close> signal and \<open>dismantle_live\<close> to \<open>finished\<close>, start it;
  take the camera lock, \<open>prepare()\<close>, \<open>start(frames)\<close>, release it; take the daq lock, for
  each daq generate the ao and do waveforms for the current wavelength, write both and
  start, release it. At no point of this sequence does the main thread hold the camera lock
  and the daq lock together.
\<close>

theorem setup_live_order_and_locks:
  assumes "cam \<in> set (cameras inst)"
    and "\<forall>d\<in>set (daqs inst). \<exists>t. daq_tasks inst d = Some t \<and> t ''ao_task'' = Some (ao_task d) \<and>
                                t ''do_task'' = Some (do_task d)"
  shows "\<exists>v'. setup_live inst cam frames v = Inr v' \<and>
          grab_frames_worker v' = Some (length (workers v)) \<and>
          workers v' = workers v @
              [\<lparr>w_camera = cam, w_frames = frames, w_i = 0, yielded = [SlotUpdateLayer],
                finished = [SlotDismantleLive cam], status = Running, abort_requested = False\<rparr>] \<and>
          trace v' = trace v @ map (Pair MainThread)
              ([CreateWorker (length (workers v)) cam frames,
                ConnectYielded (length (workers v)) SlotUpdateLayer,
                ConnectFinished (length (workers v)) (SlotDismantleLive cam),
                StartWorker (length (workers v)),
                Acquire camera_lock, CamPrepare cam, CamStart cam frames, Release camera_lock,
                Acquire daq_lock] @
               concat (map (\<lambda>d. [DaqGenerateWaveforms d (ao_task d) ''ao'' (livestream_wavelength v),
                                  DaqGenerateWaveforms d (do_task d) ''do'' (livestream_wavelength v),
                                  DaqWriteAo d, DaqWriteDo d, DaqStartAll d]) (daqs inst)) @
               [Release daq_lock]) \<and>
          (\<forall>n. \<not> (camera_lock \<in> held MainThread (take n (drop (length (trace v)) (trace v'))) \<and>
                    daq_lock \<in> held MainThread (take n (drop (length (trace v)) (trace v')))))"
proof -
  have d: "daq_start_actions ao_task do_task (livestream_wavelength v) =
     (\<lambda>d. [DaqGenerateWaveforms d (ao_task d) ''ao'' (livestream_wavelength v),
                                  DaqGenerateWaveforms d (do_task d) ''do'' (livestream_wavelength v),
                                  DaqWriteAo d, DaqWriteDo d, DaqStartAll d])"
    by (simp add: fun_eq_iff daq_start_actions_def)
  have "never_both MainThread {} (map (Pair MainThread)
              ([CreateWorker (length (workers v)) cam frames,
                ConnectYielded (length (workers v)) SlotUpdateLayer,
                ConnectFinished (length (workers v)) (SlotDismantleLive cam),
                StartWorker (length (workers v)),
                Acquire camera_lock, CamPrepare cam, CamStart cam frames, Release camera_lock,
                Acquire daq_lock] @
               concat (map (daq_start_actions ao_task do_task (livestream_wavelength v)) (daqs inst)) @
               [Release daq_lock]))"
    by (simp add: never_both_Cons never_both_Nil never_both_daq_start step_held_pair)
  then have x: "\<forall>n. \<not> (camera_lock \<in> held MainThread (take n (map (Pair MainThread)
              ([CreateWorker (length (workers v)) cam frames,
                ConnectYielded (length (workers v)) SlotUpdateLayer,
                ConnectFinished (length (workers v)) (SlotDismantleLive cam),
                StartWorker (length (workers v)),
                Acquire camera_lock, CamPrepare cam, CamStart cam frames, Release camera_lock,
                Acquire daq_lock] @
               concat (map (daq_start_actions ao_task do_task (livestream_wavelength v)) (daqs inst)) @
               [Release daq_lock]))) \<and>
                    daq_lock \<in> held MainThread (take n (map (Pair MainThread)
              ([CreateWorker (length (workers v)) cam frames,
                ConnectYielded (length (workers v)) SlotUpdateLayer,
                ConnectFinished (length (workers v)) (SlotDismantleLive cam),
                StartWorker (length (workers v)),
                Acquire camera_lock, CamPrepare cam, CamStart cam frames, Release camera_lock,
                Acquire daq_lock] @
               concat (map (daq_start_actions ao_task do_task (livestream_wavelength v)) (daqs inst)) @
               [Release daq_lock]))))"
    unfolding held_def never_both_def .
  show ?thesis
    unfolding setup_live_ok[OF assms] using x by (simp add: d)
qed

theorem setup_live_order_and_locks_witness:
  "''cam0'' \<in> set (cameras example_instrument) \<and>
   daqs example_instrument = [''daq0''] \<and>
   (\<exists>t. daq_tasks example_instrument ''daq0'' = Some t \<and>
       t ''ao_task'' = Some ''ao0'' \<and> t ''do_task'' = Some ''do0'') \<and>
   (\<exists>v'. setup_live example_instrument ''cam0'' (Finite 1) init_view = Inr v' \<and>
      grab_frames_worker v' = Some 0 \<and>
      workers v' =
        [\<lparr>w_camera = ''cam0'', w_frames = Finite 1, w_i = 0, yielded = [SlotUpdateLayer],
          finished = [SlotDismantleLive ''cam0''], status = Running, abort_requested = False\<rparr>] \<and>
      trace v' =
        [(MainThread, CreateWorker 0 ''cam0'' (Finite 1)),
         (MainThread, ConnectYielded 0 SlotUpdateLayer),
         (MainThread, ConnectFinished 0 (SlotDismantleLive ''cam0'')),
         (MainThread, StartWorker 0),
         (MainThread, Acquire camera_lock), (MainThread, CamPrepare ''cam0''),
         (MainThread, CamStart ''cam0'' (Finite 1)), (MainThread, Release camera_lock),
         (MainThread, Acquire daq_lock),
         (MainThread, DaqGenerateWaveforms ''daq0'' ''ao0'' ''ao'' ''488''),
         (MainThread, DaqGenerateWaveforms ''daq0'' ''do0'' ''do'' ''488''),
         (MainThread, DaqWriteAo ''daq0''), (MainThread, DaqWriteDo ''daq0''),
         (MainThread, DaqStartAll ''daq0''), (MainThread, Release daq_lock)] \<and>
      (\<forall>n. \<not> (camera_lock \<in> held MainThread (take n (trace v')) \<and>
                daq_lock \<in> held MainThread (take n (trace v')))))"
proof -
  have c: "''cam0'' \<in> set (cameras example_instrument)"
    by (simp add: example_instrument_def)
  have t: "\<forall>d\<in>set (daqs example_instrument). \<exists>t. daq_tasks example_instrument d = Some t \<and>
      t ''ao_task'' = Some ((\<lambda>_. ''ao0'') d) \<and> t ''do_task'' = Some ((\<lambda>_. ''do0'') d)"
    by (simp add: example_instrument_def)
  from setup_live_order_and_locks[OF c t, of "Finite 1" init_view] c t show ?thesis
    by (simp add: init_view_def example_instrument_def)
qed

text \<open>
  Claim C5, as the code has it. \<open>dismantle_live\<close> takes the camera lock, aborts the camera,
  releases the lock; takes the daq lock, stops every daq, releases it. It does not clear
  the handle \<open>grab_frames_worker\<close>: the handle, and every worker, is after the teardown what
  it was before.
\<close>

theorem dismantle_live_keeps_worker_handle:
  assumes "dismantle_live inst cam v = Inr v'"
  shows "trace v' = trace v @ map (Pair MainThread)
            ([Acquire camera_lock, CamAbort cam, Release camera_lock, Acquire daq_lock] @
             map DaqStopAll (daqs inst) @ [Release daq_lock]) \<and>
         grab_frames_worker v' = grab_frames_worker v \<and> workers v' = workers v"
proof -
  have "cam \<in> set (cameras inst)"
    using assms by (auto simp: dismantle_live_def Let_def bind_def cameras_getitem_def split: if_splits)
  from dismantle_live_ok[OF this, of v] assms show ?thesis by auto
qed

theorem dismantle_live_keeps_worker_handle_witness:
  "dismantle_live example_instrument ''cam0'' snapshot_started =
     Inr (snapshot_started\<lparr>trace := trace snapshot_started @
            [(MainThread, Acquire camera_lock), (MainThread, CamAbort ''cam0''),
             (MainThread, Release camera_lock), (MainThread, Acquire daq_lock),
             (MainThread, DaqStopAll ''daq0''), (MainThread, Release daq_lock)]\<rparr>) \<and>
   grab_frames_worker (snapshot_started\<lparr>trace := trace snapshot_started @
            [(MainThread, Acquire camera_lock), (MainThread, CamAbort ''cam0''),
             (MainThread, Release camera_lock), (MainThread, Acquire daq_lock),
             (MainThread, DaqStopAll ''daq0''), (MainThread, Release daq_lock)]\<rparr>) = Some 0"
proof -
  have h: "dismantle_live example_instrument ''cam0'' snapshot_started =
     Inr (snapshot_started\<lparr>trace := trace snapshot_started @
            [(MainThread, Acquire camera_lock), (MainThread, CamAbort ''cam0''),
             (MainThread, Release camera_lock), (MainThread, Acquire daq_lock),
             (MainThread, DaqStopAll ''daq0''), (MainThread, Release daq_lock)]\<rparr>)"
    by (simp add: dismantle_live_ok example_instrument_def)
  from dismantle_live_keeps_worker_handle[OF h] h show ?thesis
    by (simp add: snapshot_started_facts)
qed

text \<open>
  The claim as the specification states it fails: here a snapshot has run to its end and
  the teardown has been done, and the handle is still set.
\<close>

theorem handle_not_cleared_after_teardown:
  "worker_run example_instrument 2 0 snapshot_started = Inr snapshot_finished \<and>
   map status (workers snapshot_finished) = [Done] \<and>
   drop 15 (trace snapshot_finished) =
     [(WorkerThread 0, Acquire camera_lock), (WorkerThread 0, CamGrabFrame ''cam0''),
      (WorkerThread 0, Release camera_lock), (WorkerThread 0, Yield (Image ''cam0'' 0, ''cam0'')),
      (MainThread, Acquire camera_lock), (MainThread, CamAbort ''cam0''),
      (MainThread, Release camera_lock), (MainThread, Acquire daq_lock),
      (MainThread, DaqStopAll ''daq0''), (MainThread, Release daq_lock)] \<and>
   grab_frames_worker snapshot_finished = Some 0 \<and>
   grab_frames_worker snapshot_finished \<noteq> None"
  by (simp add: snapshot_finished_eq snapshot_finished_facts snapshot_started_facts(4))

section \<open>The presentation sink\<close>

lemma append_callback_absent:
  "map_of ls name = None \<Longrightarrow>
   map (\<lambda>(k, l). if k = name
                   then (k, l\<lparr>mouse_drag_callbacks := mouse_drag_callbacks l @ [cb]\<rparr>)
                   else (k, l)) ls = ls"
  by (rule map_idI) (force simp: map_of_eq_None_iff)

lemma update_layer_absent:
  assumes "map_of (layers v) (layer_name cam (livestream_wavelength v)) = None"
  shows "update_layer (img, cam) v =
     Inr (v\<lparr>layers := layers v @
            [(layer_name cam (livestream_wavelength v),
              \<lparr>l_data = img, mouse_drag_callbacks = [SaveImage]\<rparr>)]\<rparr>)"
  using assms
  by (simp add: update_layer_def update_layer_try_def layers_getitem_def bind_def Let_def
      add_image_def append_callback_def append_callback_absent)

lemma update_layer_present:
  assumes "map_of (layers v) (layer_name cam (livestream_wavelength v)) = Some l"
  shows "update_layer (img, cam) v =
     Inr (v\<lparr>layers := AList.update (layer_name cam (livestream_wavelength v))
                         (l\<lparr>l_data := img\<rparr>) (layers v)\<rparr>)"
  using assms
  by (simp add: update_layer_def update_layer_try_def layers_getitem_def bind_def Let_def)

text \<open>
  Claim C9. \<open>update_layer\<close> never raises. When no layer has the name made of the camera
  name and the current wavelength, the \<open>KeyError\<close> of the lookup is caught and a new layer
  with the frame is added after the existing ones, with \<open>save_image\<close> as its mouse-drag
  callback. When the layer exists, only its data is replaced by the frame: the layers keep
  their names, order and number, and the layer keeps its callbacks.
\<close>

theorem update_layer_creates_or_updates_in_place:
  "\<exists>v'. update_layer (img, cam) v = Inr v' \<and>
     (case map_of (layers v) (layer_name cam (livestream_wavelength v)) of
        None \<Rightarrow>
          layers v' = layers v @
            [(layer_name cam (livestream_wavelength v),
              \<lparr>l_data = img, mouse_drag_callbacks = [SaveImage]\<rparr>)]
      | Some l \<Rightarrow>
          map fst (layers v') = map fst (layers v) \<and>
          map_of (layers v') =
            (map_of (layers v))(layer_name cam (livestream_wavelength v) \<mapsto> l\<lparr>l_data := img\<rparr>))"
proof (cases "map_of (layers v) (layer_name cam (livestream_wavelength v))")
  case None
  then show ?thesis by (simp add: update_layer_absent)
next
  case (Some l)
  then have "layer_name cam (livestream_wavelength v) \<in> fst ` set (layers v)"
    using map_of_eq_None_iff[of "layers v" "layer_name cam (livestream_wavelength v)"] by simp
  with Some show ?thesis
    by (simp add: update_layer_present update_keys update_conv')
qed

section \<open>The stage position poller\<close>

lemma poll_cycle_no_scanning_lock: "Acquire scanning_stage_lock \<notin> set (poll_cycle inst)"
  by (auto simp: poll_cycle_def poll_stage_def py_and_def lock_truthy_def Let_def)

lemma poller_never_takes_scanning_lock:
  "(PollerThread, Acquire scanning_stage_lock) \<notin> set (trace v) \<Longrightarrow>
   (PollerThread, Acquire scanning_stage_lock) \<notin> set (trace (grab_stage_positions inst fuel v))"
proof (induction fuel arbitrary: v)
  case 0
  then show ?case by simp
next
  case (Suc fuel)
  have "(PollerThread, Acquire scanning_stage_lock) \<notin> set (trace (emit PollerThread (poll_cycle inst) v))"
    using Suc.prems poll_cycle_no_scanning_lock[of inst] by (auto simp: emit_def)
  from Suc.IH[OF this] show ?case by simp
qed

text \<open>
  Claim C3 does not hold of the code. \<open>with self.scanning_stage_lock and
  self.tiling_stage_lock\<close> takes the lock that the \<open>and\<close> expression evaluates to, the tiling
  lock; the scanning lock is not taken, not even while the scanning stage \<open>z\<close> is read. The
  lock is released before the position is emitted.
\<close>

theorem poller_takes_only_tiling_lock:
  "trace (grab_stage_positions example_instrument 1 init_view) =
     [(PollerThread, Sleep),
      (PollerThread, Acquire tiling_stage_lock), (PollerThread, StagePosition ''z''),
      (PollerThread, Release tiling_stage_lock), (PollerThread, YieldPosition (''z'', Scalar 5)),
      (PollerThread, Acquire tiling_stage_lock), (PollerThread, StagePosition ''xy''),
      (PollerThread, Release tiling_stage_lock),
      (PollerThread, YieldPosition (''xy'', Axes [(''x'', 1), (''y'', 2)]))]"
  by (simp add: example_instrument_def init_view_def emit_def poll_cycle_def poll_stage_def
      dict_merge_def py_and_def lock_truthy_def Let_def)

section \<open>The controls and the workers they start\<close>

lemma wired_init: "wired init_view"
  by (simp add: wired_def live_slots_def init_view_def setup_camera_widgets_def)

lemma wired_buttons:
  "(\<And>b. pressed (buttons v' b) = pressed (buttons v b)) \<Longrightarrow> wired v \<Longrightarrow> wired v'"
  by (simp add: wired_def)

lemma run_slot_wired: "run_slot inst arg s v = Inr v' \<Longrightarrow> wired v \<Longrightarrow> wired v'"
proof (cases s)
  case (SlotDisableButton b)
  assume "run_slot inst arg s v = Inr v'" "wired v"
  with SlotDisableButton show ?thesis
    by (auto simp: run_slot_def disable_button_def map_button_def intro: wired_buttons[rotated])
next
  case (SlotSetupLive c f)
  assume a: "run_slot inst arg s v = Inr v'" "wired v"
  with SlotSetupLive have "setup_live inst c f v = Inr v'" by (simp add: run_slot_def)
  from setup_live_Inr[OF this] a(2) show ?thesis by (simp add: wired_def)
next
  case (SlotToggleLiveButton c)
  assume "run_slot inst arg s v = Inr v'" "wired v"
  with SlotToggleLiveButton show ?thesis
    by (auto simp: run_slot_def toggle_live_button_def map_button_def wired_def Let_def
        live_slots_def[of _ "[_, _, _]"] split: if_splits option.splits)
next
  case (SlotWorkerQuit w)
  assume "run_slot inst arg s v = Inr v'" "wired v"
  with SlotWorkerQuit show ?thesis
    by (auto simp: run_slot_def worker_quit_def map_worker_def intro: wired_buttons[rotated])
next
  case SlotUpdateLayer
  assume a: "run_slot inst arg s v = Inr v'" "wired v"
  with SlotUpdateLayer obtain args where "update_layer args v = Inr v'"
    by (auto simp: run_slot_def split: option.splits)
  with update_layer_total[of args v] a(2) show ?thesis by (auto simp: wired_def)
next
  case (SlotDismantleLive c)
  assume a: "run_slot inst arg s v = Inr v'" "wired v"
  with SlotDismantleLive show ?thesis
    by (auto simp: run_slot_def dismantle_live_def Let_def bind_def cameras_getitem_def emit_def
        wired_def split: if_splits)
qed

lemma run_slots_wired: "run_slots inst arg ss v = Inr v' \<Longrightarrow> wired v \<Longrightarrow> wired v'"
proof (induction ss arbitrary: v)
  case Nil
  then show ?case by simp
next
  case (Cons s ss)
  then obtain v1 where 1: "run_slot inst arg s v = Inr v1" and 2: "run_slots inst arg ss v1 = Inr v'"
    by (auto simp: bind_def split: sum.splits)
  from Cons.IH[OF 2 run_slot_wired[OF 1 Cons.prems(2)]] show ?case .
qed

lemma emit_wired: "wired (emit t as v) = wired v"
  by (simp add: wired_def emit_def)

lemma map_worker_wired: "wired (map_worker wid f v) = wired v"
  by (simp add: wired_def map_worker_def)

lemma worker_step_wired: "worker_step inst wid v = Inr v' \<Longrightarrow> wired v \<Longrightarrow> wired v'"
proof -
  assume a: "worker_step inst wid v = Inr v'" "wired v"
  have fin: "wired u'" if "worker_finish inst wid u = Inr u'" "wired u" for u u'
    using that run_slots_wired[of inst None "finished (workers u ! wid)"
        "map_worker wid (\<lambda>w. w\<lparr>status := Done\<rparr>) u" u']
    by (simp add: worker_finish_def map_worker_wired)
  have nxt: "wired u'" if "grab_frames_next inst wid w u = Inr (out, u')" "wired u" for u u' w out
    using that
    by (auto simp: grab_frames_next_def Let_def bind_def cameras_getitem_def emit_def wired_def
        split: if_splits)
  show ?thesis
  proof (cases "wid < length (workers v) \<and> status (workers v ! wid) = Running")
    case False
    with a show ?thesis by (auto simp: worker_step_def)
  next
    case True
    show ?thesis
    proof (cases "abort_requested (workers v ! wid)")
      case True
      with a \<open>wid < length (workers v) \<and> status (workers v ! wid) = Running\<close> fin show ?thesis
        by (auto simp: worker_step_def Let_def)
    next
      case False
      with a True obtain out v1 where g: "grab_frames_next inst wid (workers v ! wid) v = Inr (out, v1)"
        and r: "(case out of None \<Rightarrow> worker_finish inst wid v1
               | Some frame \<Rightarrow>
                   bind (run_slots inst (Some frame) (yielded (workers v ! wid))
                          (emit (WorkerThread wid) [Yield frame] v1)) (\<lambda>v2.
                     Inr (map_worker wid (\<lambda>w. w\<lparr>w_i := w_i w + 1\<rparr>) v2))) = Inr v'"
        by (auto simp: worker_step_def Let_def bind_def split: sum.splits)
      from nxt[OF g a(2)] have w1: "wired v1" .
      show ?thesis
      proof (cases out)
        case None
        with r fin w1 show ?thesis by auto
      next
        case (Some frame)
        with r obtain v2 where
          s: "run_slots inst (Some frame) (yielded (workers v ! wid))
                (emit (WorkerThread wid) [Yield frame] v1) = Inr v2"
          and e: "v' = map_worker wid (\<lambda>w. w\<lparr>w_i := w_i w + 1\<rparr>) v2"
          by (auto simp: bind_def split: sum.splits)
        from run_slots_wired[OF s] w1 have "wired v2" by (simp add: emit_wired)
        then show ?thesis by (simp add: e map_worker_wired)
      qed
    qed
  qed
qed

lemma timer_fired_pressed: "pressed (buttons (timer_fired b v) b') = pressed (buttons v b')"
  by (simp add: timer_fired_def map_button_def)

lemma timer_fired_wired: "wired v \<Longrightarrow> wired (timer_fired b v)"
  by (rule wired_buttons[rotated]) (simp_all add: timer_fired_pressed)

lemma ui_step_wired: "ui_step inst ev v = Inr v' \<Longrightarrow> wired v \<Longrightarrow> wired v'"
  by (cases ev)
     (auto simp: ui_step_def press_def timer_fired_wired
        intro: run_slots_wired worker_step_wired split: if_splits)

lemma run_events_wired: "run_events inst evs v = Inr v' \<Longrightarrow> wired v \<Longrightarrow> wired v'"
proof (induction evs arbitrary: v)
  case Nil
  then show ?case by simp
next
  case (Cons e evs)
  then obtain v1 where 1: "ui_step inst e v = Inr v1" and 2: "run_events inst evs v1 = Inr v'"
    by (auto simp: bind_def split: sum.splits)
  from Cons.IH[OF 2 ui_step_wired[OF 1 Cons.prems(2)]] show ?case .
qed

lemma run_slot_effect:
  assumes "run_slot inst arg s v = Inr v'"
  shows "(\<not> enabled (buttons v b) \<longrightarrow> \<not> enabled (buttons v' b)) \<and>
         (s = SlotDisableButton b \<longrightarrow> \<not> enabled (buttons v' b)) \<and>
         length (workers v') = (case s of SlotSetupLive c f \<Rightarrow> Suc (length (workers v))
                                | _ \<Rightarrow> length (workers v))"
proof (cases s)
  case (SlotDisableButton b')
  with assms show ?thesis
    by (auto simp: run_slot_def disable_button_def map_button_def split: if_splits)
next
  case (SlotSetupLive c f)
  with assms have "setup_live inst c f v = Inr v'" by (simp add: run_slot_def)
  from setup_live_Inr[OF this] SlotSetupLive show ?thesis by simp
next
  case (SlotToggleLiveButton c)
  with assms show ?thesis
    by (auto simp: run_slot_def toggle_live_button_def map_button_def Let_def
        split: if_splits option.splits)
next
  case (SlotWorkerQuit w)
  with assms show ?thesis
    by (auto simp: run_slot_def worker_quit_def map_worker_def)
next
  case SlotUpdateLayer
  with assms obtain args where "update_layer args v = Inr v'"
    by (auto simp: run_slot_def split: option.splits)
  with update_layer_total[of args v] SlotUpdateLayer show ?thesis by auto
next
  case (SlotDismantleLive c)
  with assms show ?thesis
    by (auto simp: run_slot_def dismantle_live_def Let_def bind_def cameras_getitem_def emit_def
        split: if_splits)
qed

lemma press_wired:
  assumes w: "wired v" and p: "press inst b v = Inr v'"
  shows "\<not> enabled (buttons v' b) \<and> length (workers v') \<le> Suc (length (workers v))"
proof (cases "enabled (buttons v b)")
  case False
  with p show ?thesis by (simp add: press_def)
next
  case True
  with p have r: "run_slots inst None (pressed (buttons v b)) v = Inr v'"
    by (simp add: press_def)
  have three: "\<not> enabled (buttons v' b) \<and> length (workers v') \<le> Suc (length (workers v))"
    if "run_slots inst None [s1, s2, s3] v = Inr v'"
      and "SlotDisableButton b \<in> {s1, s2, s3}"
      and "length (filter (\<lambda>s. \<exists>c f. s = SlotSetupLive c f) [s1, s2, s3]) \<le> 1"
    for s1 s2 s3
  proof -
    from that(1) obtain v1 v2 where 1: "run_slot inst None s1 v = Inr v1"
      and 2: "run_slot inst None s2 v1 = Inr v2" and 3: "run_slot inst None s3 v2 = Inr v'"
      by (auto simp: bind_def split: sum.splits)
    from run_slot_effect[OF 1, of b] run_slot_effect[OF 2, of b] run_slot_effect[OF 3, of b] that(2,3)
    show ?thesis
      by (auto split: slot.splits if_splits)
  qed
  show ?thesis
  proof (cases b)
    case (SnapshotButton c)
    with w have "pressed (buttons v b) = [SlotDisableButton b, SlotSetupLive c (Finite 1)]"
      by (simp add: wired_def)
    with r obtain v1 where 1: "run_slot inst None (SlotDisableButton b) v = Inr v1"
      and 2: "run_slot inst None (SlotSetupLive c (Finite 1)) v1 = Inr v'"
      by (auto simp: bind_def split: sum.splits)
    from run_slot_effect[OF 1, of b] run_slot_effect[OF 2, of b] show ?thesis by simp
  next
    case (LiveButton c)
    with w have "live_slots c (pressed (buttons v b))" by (simp add: wired_def)
    then consider
      "pressed (buttons v b) = [SlotDisableButton b, SlotSetupLive c Infinity, SlotToggleLiveButton c]"
      | "pressed (buttons v b) = [SlotSetupLive c Infinity, SlotDisableButton b, SlotToggleLiveButton c]"
      | wid where "pressed (buttons v b) = [SlotWorkerQuit wid, SlotDisableButton b, SlotToggleLiveButton c]"
      using LiveButton by (auto simp: live_slots_def)
    then show ?thesis
    proof cases
      case 1
      with r show ?thesis by (intro three[of "SlotDisableButton b" "SlotSetupLive c Infinity" "SlotToggleLiveButton c"]) simp_all
    next
      case 2
      with r show ?thesis by (intro three[of "SlotSetupLive c Infinity" "SlotDisableButton b" "SlotToggleLiveButton c"]) simp_all
    next
      case 3
      with r show ?thesis by (intro three[of "SlotWorkerQuit wid" "SlotDisableButton b" "SlotToggleLiveButton c"]) simp_all
    qed
  qed
qed

lemma live_started_eq:
  "run_events example_instrument [Press (LiveButton ''cam0'')] init_view = Inr live_started"
proof -
  have "case run_events example_instrument [Press (LiveButton ''cam0'')] init_view of
          Inr v \<Rightarrow> True | Inl e \<Rightarrow> False"
    by code_simp
  then show ?thesis
    by (cases "run_events example_instrument [Press (LiveButton ''cam0'')] init_view")
       (simp_all add: live_started_def)
qed

lemma both_started_eq:
  "press example_instrument (SnapshotButton ''cam0'') live_started = Inr both_started"
proof -
  have "case press example_instrument (SnapshotButton ''cam0'') live_started of
          Inr v \<Rightarrow> True | Inl e \<Rightarrow> False"
    by code_simp
  then show ?thesis
    by (cases "press example_instrument (SnapshotButton ''cam0'') live_started")
       (simp_all add: both_started_def)
qed

lemma run_slots_keeps_disabled:
  "run_slots inst arg ss v = Inr v' \<Longrightarrow> \<not> enabled (buttons v b) \<Longrightarrow> \<not> enabled (buttons v' b)"
proof (induction ss arbitrary: v)
  case Nil
  then show ?case by simp
next
  case (Cons s ss)
  then obtain v1 where 1: "run_slot inst arg s v = Inr v1" and 2: "run_slots inst arg ss v1 = Inr v'"
    by (auto simp: bind_def split: sum.splits)
  from run_slot_effect[OF 1, of b] Cons.prems(2) have "\<not> enabled (buttons v1 b)" by simp
  from Cons.IH[OF 2 this] show ?case .
qed

lemma worker_step_keeps_disabled:
  assumes a: "worker_step inst wid v = Inr v'" and d: "\<not> enabled (buttons v b)"
  shows "\<not> enabled (buttons v' b)"
proof -
  have fin: "\<not> enabled (buttons u' b)"
    if "worker_finish inst wid u = Inr u'" "\<not> enabled (buttons u b)" for u u'
    using that run_slots_keeps_disabled[of inst None "finished (workers u ! wid)"
        "map_worker wid (\<lambda>w. w\<lparr>status := Done\<rparr>) u" u' b]
    by (simp add: worker_finish_def map_worker_def)
  have nxt: "buttons u' = buttons u"
    if "grab_frames_next inst wid w u = Inr (out, u')" for u u' w out
    using that
    by (auto simp: grab_frames_next_def Let_def bind_def cameras_getitem_def emit_def
        split: if_splits)
  show ?thesis
  proof (cases "wid < length (workers v) \<and> status (workers v ! wid) = Running")
    case False
    with a d show ?thesis by (auto simp: worker_step_def)
  next
    case True
    show ?thesis
    proof (cases "abort_requested (workers v ! wid)")
      case True
      with a d \<open>wid < length (workers v) \<and> status (workers v ! wid) = Running\<close> fin show ?thesis
        by (auto simp: worker_step_def Let_def)
    next
      case False
      with a True obtain out v1 where g: "grab_frames_next inst wid (workers v ! wid) v = Inr (out, v1)"
        and r: "(case out of None \<Rightarrow> worker_finish inst wid v1
               | Some frame \<Rightarrow>
                   bind (run_slots inst (Some frame) (yielded (workers v ! wid))
                          (emit (WorkerThread wid) [Yield frame] v1)) (\<lambda>v2.
                     Inr (map_worker wid (\<lambda>w. w\<lparr>w_i := w_i w + 1\<rparr>) v2))) = Inr v'"
        by (auto simp: worker_step_def Let_def bind_def split: sum.splits)
      from nxt[OF g] d have d1: "\<not> enabled (buttons v1 b)" by simp
      show ?thesis
      proof (cases out)
        case None
        with r fin d1 show ?thesis by auto
      next
        case (Some frame)
        with r obtain v2 where
          s: "run_slots inst (Some frame) (yielded (workers v ! wid))
                (emit (WorkerThread wid) [Yield frame] v1) = Inr v2"
          and e: "v' = map_worker wid (\<lambda>w. w\<lparr>w_i := w_i w + 1\<rparr>) v2"
          by (auto simp: bind_def split: sum.splits)
        from run_slots_keeps_disabled[OF s, of b] d1 have "\<not> enabled (buttons v2 b)"
          by (simp add: emit_def)
        then show ?thesis by (simp add: e map_worker_def)
      qed
    qed
  qed
qed

lemma ui_step_keeps_disabled:
  assumes "ui_step inst ev v = Inr v'" and "ev \<noteq> TimerFired b" and "\<not> enabled (buttons v b)"
  shows "\<not> enabled (buttons v' b)"
proof (cases ev)
  case (Press b')
  with assms show ?thesis
    by (auto simp: ui_step_def press_def dest: run_slots_keeps_disabled split: if_splits)
next
  case (TimerFired b')
  with assms show ?thesis
    by (auto simp: ui_step_def timer_fired_def map_button_def split: if_splits)
next
  case (WorkerTurn wid)
  with assms show ?thesis
    by (auto simp: ui_step_def dest: worker_step_keeps_disabled)
qed

lemma cooldown_run:
  "run_events inst evs v = Inr v' \<Longrightarrow> TimerFired b \<notin> set evs \<Longrightarrow> \<not> enabled (buttons v b) \<Longrightarrow>
   \<not> enabled (buttons v' b) \<and> run_events inst (filter (\<lambda>e. e \<noteq> Press b) evs) v = Inr v'"
proof (induction evs arbitrary: v)
  case Nil
  then show ?case by simp
next
  case (Cons ev evs)
  then obtain v1 where 1: "ui_step inst ev v = Inr v1" and 2: "run_events inst evs v1 = Inr v'"
    by (auto simp: bind_def split: sum.splits)
  from Cons.prems(2) have nt: "ev \<noteq> TimerFired b" "TimerFired b \<notin> set evs" by auto
  from ui_step_keeps_disabled[OF 1 nt(1) Cons.prems(3)] have d1: "\<not> enabled (buttons v1 b)" .
  note ih = Cons.IH[OF 2 nt(2) d1]
  show ?case
  proof (cases "ev = Press b")
    case True
    with 1 Cons.prems(3) have "v1 = v" by (simp add: ui_step_def press_def)
    with ih True show ?thesis by simp
  next
    case False
    with ih 1 show ?thesis by (simp add: bind_def)
  qed
qed

lemma snapshot_pressed_again_eq:
  "run_events example_instrument
     [Press (SnapshotButton ''cam0''), WorkerTurn 1, Press (SnapshotButton ''cam0'')]
     both_started = Inr snapshot_pressed_again"
proof -
  have "case run_events example_instrument
               [Press (SnapshotButton ''cam0''), WorkerTurn 1, Press (SnapshotButton ''cam0'')]
               both_started of
          Inr v \<Rightarrow> True | Inl e \<Rightarrow> False"
    by code_simp
  then show ?thesis
    by (cases "run_events example_instrument
               [Press (SnapshotButton ''cam0''), WorkerTurn 1, Press (SnapshotButton ''cam0'')]
               both_started")
       (simp_all add: snapshot_pressed_again_def)
qed

text \<open>
  Claim C2, as the code has it. In every state the view can reach, a press of a control
  starts at most one worker and leaves that control disabled; and whatever happens next
  (presses of any control, turns of the workers, timers of other controls), as long as the
  control's own cool-down timer has not fired the control is still disabled and the
  presses of it have done nothing: the view is the one that the same events without them
  lead to. So a control cannot start a second worker before its own cool-down timer fires.
  \<open>setup_live\<close> has no guard of its own, and the cool-down of one control does not cover
  the camera's other control.
\<close>

theorem same_control_starts_no_second_worker_in_cooldown:
  assumes "run_events inst evs init_view = Inr v" and "press inst b v = Inr v'"
    and "run_events inst evs' v' = Inr v''" and "TimerFired b \<notin> set evs'"
  shows "\<not> enabled (buttons v' b) \<and> press inst b v' = Inr v' \<and>
         length (workers v') \<le> Suc (length (workers v)) \<and>
         \<not> enabled (buttons v'' b) \<and>
         run_events inst (filter (\<lambda>e. e \<noteq> Press b) evs') v' = Inr v''"
proof -
  have "wired v" using run_events_wired[OF assms(1) wired_init] .
  from press_wired[OF this assms(2)] have d: "\<not> enabled (buttons v' b)"
    and l: "length (workers v') \<le> Suc (length (workers v))" by simp_all
  from cooldown_run[OF assms(3,4) d] d l show ?thesis by (simp add: press_def)
qed

theorem snapshot_during_live_cooldown_witness:
  "run_events example_instrument [Press (LiveButton ''cam0'')] init_view = Inr live_started \<and>
   press example_instrument (SnapshotButton ''cam0'') live_started = Inr both_started \<and>
   run_events example_instrument
     [Press (SnapshotButton ''cam0''), WorkerTurn 1, Press (SnapshotButton ''cam0'')]
     both_started = Inr snapshot_pressed_again \<and>
   TimerFired (SnapshotButton ''cam0'') \<notin>
     set [Press (SnapshotButton ''cam0''), WorkerTurn 1, Press (SnapshotButton ''cam0'')] \<and>
   \<not> enabled (buttons both_started (SnapshotButton ''cam0'')) \<and>
   press example_instrument (SnapshotButton ''cam0'') both_started = Inr both_started \<and>
   length (workers both_started) \<le> Suc (length (workers live_started)) \<and>
   \<not> enabled (buttons snapshot_pressed_again (SnapshotButton ''cam0'')) \<and>
   run_events example_instrument [WorkerTurn 1] both_started = Inr snapshot_pressed_again"
proof -
  have t: "TimerFired (SnapshotButton ''cam0'') \<notin>
     set [Press (SnapshotButton ''cam0''), WorkerTurn 1, Press (SnapshotButton ''cam0'')]"
    by simp
  from same_control_starts_no_second_worker_in_cooldown
         [OF live_started_eq both_started_eq snapshot_pressed_again_eq t]
       live_started_eq both_started_eq snapshot_pressed_again_eq
  show ?thesis by simp
qed

text \<open>
  The claim as the specification states it fails: a press of the live button of \<open>cam0\<close>
  and then of its snapshot button, which no cool-down has disabled, leaves two started
  workers on \<open>cam0\<close>, neither of them over.
\<close>

theorem live_then_snapshot_two_workers:
  "map_sum id (active_workers ''cam0'')
     (run_events example_instrument [Press (LiveButton ''cam0''), Press (SnapshotButton ''cam0'')]
        init_view) = Inr [0, 1]"
  by code_simp

section \<open>The device property bridge\<close>

lemma refresh_widget_other:
  "refresh_widget dev ks w = (err, w') \<Longrightarrow> k \<notin> set ks \<Longrightarrow>
   map_of (w_attrs w') k = map_of (w_attrs w) k \<and> property_widgets w' = property_widgets w"
proof (induction ks arbitrary: w)
  case Nil
  then show ?case by simp
next
  case (Cons a ks)
  show ?case
  proof (cases "py_getattr dev a")
    case (Inl e)
    with Cons.prems show ?thesis by simp
  next
    case (Inr x)
    with Cons.prems have r: "refresh_widget dev ks (widget_setattr w a x) = (err, w')" by simp
    from Cons.IH[OF r] Cons.prems(2) show ?thesis
      by (simp add: widget_setattr_def update_conv')
  qed
qed

lemma refresh_widget_shows_device:
  "refresh_widget dev ks w = (None, w') \<Longrightarrow> k \<in> set ks \<Longrightarrow>
   \<exists>x. py_getattr dev k = Inr x \<and> widget_getattr w' k = Inr x"
proof (induction ks arbitrary: w)
  case Nil
  then show ?case by simp
next
  case (Cons a ks)
  then obtain x where x: "py_getattr dev a = Inr x"
    and r: "refresh_widget dev ks (widget_setattr w a x) = (None, w')"
    by (cases "py_getattr dev a") auto
  show ?case
  proof (cases "k \<in> set ks")
    case True
    from Cons.IH[OF r True] show ?thesis .
  next
    case False
    with Cons.prems(2) have ka: "k = a" by simp
    from refresh_widget_other[OF r False] have
      "map_of (w_attrs w') k = map_of (w_attrs (widget_setattr w a x)) k" by simp
    with ka x show ?thesis
      by (simp add: widget_getattr_def widget_setattr_def update_conv')
  qed
qed

lemma refresh_widget_returns:
  "(\<forall>k\<in>set ks. \<exists>y. py_getattr dev k = Inr y) \<Longrightarrow> \<exists>w'. refresh_widget dev ks w = (None, w')"
  by (induction ks arbitrary: w) auto

text \<open>
  The handler returns when the widget has the edited attribute, the write succeeds, and
  the device can then be read at the edited and at every tracked attribute.
\<close>

lemma device_property_changed_returns:
  assumes "widget_getattr w (split_first name) = Inr x"
    and "py_setattr dev (split_first name) x = Inr dev'"
    and "py_getattr dev' (split_first name) = Inr p"
    and "\<forall>k\<in>set (property_widgets w). \<exists>y. py_getattr dev' k = Inr y"
  shows "\<exists>w'. device_property_changed name dev w dt v =
           (None, dev', w', emit MainThread [Release (Lock dt)] (emit MainThread [Acquire (Lock dt)] v))"
proof -
  from refresh_widget_returns[OF assms(4), of w] obtain w' where
    "refresh_widget dev' (property_widgets w) w = (None, w')" by blast
  with assms(1-3) show ?thesis
    by (simp add: device_property_changed_def Let_def)
qed

lemma exposure_edit_example:
  "device_property_changed ''exposure_time'' example_camera example_widget Camera init_view =
     (None, example_camera\<lparr>dev_hw := 100\<rparr>,
      example_widget\<lparr>w_attrs := [(''exposure_time'', PyInt 100), (''frame_rate'', PyInt 10)]\<rparr>,
      init_view\<lparr>trace := [(MainThread, Acquire camera_lock), (MainThread, Release camera_lock)]\<rparr>)"
  by (simp add: device_property_changed_def Let_def widget_getattr_def split_first_def
      example_widget_def example_camera_def py_setattr_def py_getattr_def set_exposure_def
      widget_setattr_def emit_def init_view_def bind_def)

text \<open>
  Claim C7, as the code has it. When the handler of an edit returns, the device is the one
  that the write of the widget's value has left, and every tracked attribute of the widget
  holds what that device reports for it: the value after the write, clamped or changed as
  a side effect of the write as it may be, not the one typed in and not the one shown
  before.
\<close>

theorem widget_shows_device_values_after_write:
  assumes "device_property_changed name dev w dt v = (None, dev', w', v')"
    and "k \<in> set (property_widgets w)"
  shows "\<exists>x y. widget_getattr w (split_first name) = Inr x \<and>
               py_setattr dev (split_first name) x = Inr dev' \<and>
               py_getattr dev' k = Inr y \<and>
               widget_getattr w' k = Inr y"
proof -
  from assms(1) obtain x p where 1: "widget_getattr w (split_first name) = Inr x"
    and 2: "py_setattr dev (split_first name) x = Inr dev'"
    and 3: "py_getattr dev' (split_first name) = Inr p"
    and 4: "refresh_widget dev' (property_widgets w) w = (None, w')"
    by (auto simp: device_property_changed_def Let_def split: sum.splits prod.splits)
  from refresh_widget_shows_device[OF 4 assms(2)] 1 2 show ?thesis by blast
qed

theorem exposure_edit_shows_clamped_value:
  "device_property_changed ''exposure_time'' example_camera example_widget Camera init_view =
     (None, example_camera\<lparr>dev_hw := 100\<rparr>,
      example_widget\<lparr>w_attrs := [(''exposure_time'', PyInt 100), (''frame_rate'', PyInt 10)]\<rparr>,
      init_view\<lparr>trace := [(MainThread, Acquire camera_lock), (MainThread, Release camera_lock)]\<rparr>) \<and>
   ''frame_rate'' \<in> set (property_widgets example_widget) \<and>
   (\<exists>x y. widget_getattr example_widget (split_first ''exposure_time'') = Inr x \<and>
      py_setattr example_camera (split_first ''exposure_time'') x = Inr (example_camera\<lparr>dev_hw := 100\<rparr>) \<and>
      py_getattr (example_camera\<lparr>dev_hw := 100\<rparr>) ''frame_rate'' = Inr y \<and>
      widget_getattr
        (example_widget\<lparr>w_attrs := [(''exposure_time'', PyInt 100), (''frame_rate'', PyInt 10)]\<rparr>)
        ''frame_rate'' = Inr y)"
proof -
  have k: "''frame_rate'' \<in> set (property_widgets example_widget)"
    by (simp add: example_widget_def)
  from widget_shows_device_values_after_write[OF exposure_edit_example k] exposure_edit_example k
  show ?thesis by simp
qed

text \<open>
  The claim as the specification states it fails. The scan lists the laser's set-point,
  which can be written and not read, so its widget tracks it. An edit of it writes 80 to
  the laser; the \<open>getattr\<close> of the second \<open>print\<close> then raises, the handler is left before
  its refresh loop, and the widget still shows the power 10 while the laser reports 80.
\<close>

theorem unreadable_attribute_edit_leaves_stale_values:
  "scan_for_properties example_laser = Inr [(''power'', PyInt 10), (''power_setpoint'', PyNone)] \<and>
   device_property_changed ''power_setpoint'' example_laser example_laser_widget Laser init_view =
     (Some AttributeError, example_laser\<lparr>dev_hw := 80\<rparr>, example_laser_widget,
      init_view\<lparr>trace := [(MainThread, Acquire (Lock Laser)), (MainThread, Release (Lock Laser))]\<rparr>) \<and>
   py_getattr (example_laser\<lparr>dev_hw := 80\<rparr>) ''power'' = Inr (PyInt 80) \<and>
   widget_getattr example_laser_widget ''power'' = Inr (PyInt 10)"
proof -
  have "scan_for_properties example_laser = Inr [(''power'', PyInt 10), (''power_setpoint'', PyNone)]"
    by code_simp
  then show ?thesis
    by (simp add: device_property_changed_def Let_def widget_getattr_def split_first_def
        example_laser_widget_def example_laser_def py_setattr_def py_getattr_def set_power_def
        emit_def init_view_def bind_def)
qed

lemma scan_loop_keys:
  "scan_loop dev ns acc = Inr r \<Longrightarrow>
   fst ` set r = fst ` set acc \<union> {n \<in> set ns. is_property dev n}"
proof (induction ns arbitrary: acc)
  case Nil
  then show ?case by simp
next
  case (Cons n ns)
  show ?case
  proof (cases "is_property dev n")
    case False
    with Cons show ?thesis by auto
  next
    case True
    with Cons.prems obtain x where "scan_loop dev ns (AList.update n x acc) = Inr r"
      by (auto simp: bind_def split: sum.splits)
    from Cons.IH[OF this] True show ?thesis
      by (simp add: dom_update) blast
  qed
qed

lemma scan_for_properties_keys:
  assumes "scan_for_properties dev = Inr r"
  shows "fst ` set r = {n. is_property dev n}"
proof -
  have "is_property dev n \<Longrightarrow> n \<in> set (dir_names dev)" for n
    by (auto simp: is_property_def dir_names_def dest!: map_of_SomeD split: option.splits
        intro: rev_image_eqI)
  with scan_loop_keys[OF assms[unfolded scan_for_properties_def]] show ?thesis by auto
qed

text \<open>
  Claim C8 does not hold of the code. The docstring of \<open>scan_for_properties\<close> speaks of
  properties with setters and getters, but the test for a setter is in a comment: the scan
  lists every property of the class (\<open>scan_for_properties_keys\<close>), also \<open>frame_rate\<close> of
  the camera here, which has no setter.
\<close>

theorem scan_lists_property_without_setter:
  "scan_for_properties example_camera =
     Inr [(''exposure_time'', PyInt 20), (''frame_rate'', PyInt 50)] \<and>
   \<not> has_setter example_camera ''frame_rate''"
  by code_simp

end
